theory Spec2Isabelle
  imports Main "HOL-Library.Sublist"
begin

section \<open>Data model\<close>

text \<open>
  A caller's tree node \<open>T\<close>. The engine reads it through two callbacks only:
  \<open>getNodeChildren\<close>, which is the children field here (the callback has to be pure and
  the tree finite), and \<open>getNodeId\<close>, a function on the node that stays a prop.
\<close>

datatype 'a node = Node (payload: 'a) (getNodeChildren: "'a node list")

text \<open>
  \<open>__expandableTreeState\<close>: \<open>isIndeterminate\<close> and \<open>isExpanded\<close> are optional fields
  (\<open>None\<close> is JavaScript's \<open>undefined\<close>).
\<close>

record node_state =
  isSelected :: bool
  isVisible :: bool
  isIndeterminate :: "bool option"
  isExpanded :: "bool option"

text \<open>
  \<open>StatefulNode<T> = T & {__expandableTreeState, __expandableTreeChildren}\<close>. The
  objects are never mutated after they are built, so an object is its address \<open>ref\<close>
  together with its content; \<open>===\<close> on two nodes compares the addresses. \<open>raw\<close> holds
  the fields of \<open>T\<close> that the spread and \<open>Object.assign\<close> copy over.
\<close>

datatype 'a snode =
  StatefulNode (ref: nat) (raw: "'a node") (getNodeState: node_state)
    (getStatefulChildren: "'a snode list")

text \<open>
  The props of \<open>CheckboxTreeProps<T>\<close> that the engine reads. The functions below take
  them as this record where the source passes them one by one. \<open>propsExpandedList\<close> is
  the \<open>expandedList\<close> prop under the name \<open>applyPropsToStatefulTree\<close> gives it; it and
  \<open>filteredList\<close> may be \<open>null\<close>/\<open>undefined\<close>. \<open>isSelectable\<close>, \<open>isMultiPick\<close> and
  \<open>isSearchable\<close> are booleans once \<open>defaultProps\<close> are applied, and
  \<open>isAdditionalFilterApplied\<close> is only read through \<open>Boolean(...)\<close>.
\<close>

record 'a CheckboxTreeProps =
  tree :: "'a node"
  getNodeId :: "'a node \<Rightarrow> string"
  isSelectable :: bool
  isSearchable :: bool
  isMultiPick :: bool
  searchTerm :: string
  searchPredicate :: "'a node \<Rightarrow> string list \<Rightarrow> bool"
  selectedList :: "string list"
  propsExpandedList :: "string list option"
  filteredList :: "string list option"
  isAdditionalFilterApplied :: bool

text \<open>The object \<open>applyPropsToStatefulTree\<close> returns.\<close>

record 'a generatedTreeState =
  expandedList :: "string list"
  statefulTree :: "'a snode"

text \<open>
  What the engine changes outside its results: the next free object address, the lines
  written by \<open>console.warn\<close>, and the local \<open>generatedExpandedList\<close> of the running
  \<open>applyPropsToStatefulTree\<close> call.
\<close>

record runtime =
  nextRef :: nat
  console :: "string list"
  generatedExpandedList :: "string list"

section \<open>JavaScript sets of strings\<close>

text \<open>
  A \<open>Set<string>\<close> keeps its elements in insertion order, each once: a list without
  duplicates. \<open>Array.from\<close> reads that order back.
\<close>

definition Set_add :: "string \<Rightarrow> string list \<Rightarrow> string list" where
  "Set_add x s = (if x \<in> set s then s else s @ [x])"

definition Set_has :: "string \<Rightarrow> string list \<Rightarrow> bool" where
  "Set_has x s = (x \<in> set s)"

definition new_Set :: "string list \<Rightarrow> string list" where
  "new_Set xs = foldl (\<lambda>s x. Set_add x s) [] xs"

definition Array_from :: "string list \<Rightarrow> string list" where
  "Array_from s = s"

section \<open>Tree utilities\<close>

text \<open>
  Modelled from the spec: \<open>isLeaf\<close>, \<open>getLeaves\<close> and \<open>mapStructure\<close> of
  \<open>SelectTree/Utils\<close>, which is not among the sources. \<open>isLeaf(node)\<close>: true iff
  \<open>children(node)\<close> is empty. \<open>leaves(node)\<close>: all leaf descendants in traversal order.
  \<open>mapStructure(f, node)\<close>: recursively maps every child first, then calls
  \<open>f(node, mappedChildren)\<close> to build the node's replacement. The mapping functions of
  this file allocate objects and fill a set, so \<open>f\<close> threads a state; there is one
  \<open>mapStructure\<close> per children accessor it is called with.
\<close>

definition isLeaf :: "'a node \<Rightarrow> bool" where
  "isLeaf n = (getNodeChildren n = [])"

fun getLeaves :: "'a node \<Rightarrow> 'a node list" where
  "getLeaves (Node a ks) = (if ks = [] then [Node a ks] else concat (map getLeaves ks))"

fun mapStructure ::
    "('a snode \<Rightarrow> 'a snode list \<Rightarrow> 's \<Rightarrow> 'a snode \<times> 's) \<Rightarrow> 'a snode \<Rightarrow> 's \<Rightarrow> 'a snode \<times> 's"
  and mapChildren ::
    "('a snode \<Rightarrow> 'a snode list \<Rightarrow> 's \<Rightarrow> 'a snode \<times> 's) \<Rightarrow> 'a snode list \<Rightarrow> 's
      \<Rightarrow> 'a snode list \<times> 's"
where
  "mapStructure f (StatefulNode r n s cs) st =
     (case mapChildren f cs st of (cs', st') \<Rightarrow> f (StatefulNode r n s cs) cs' st')"
| "mapChildren f [] st = ([], st)"
| "mapChildren f (c # cs) st =
     (case mapStructure f c st of (c', st1) \<Rightarrow>
        (case mapChildren f cs st1 of (cs', st2) \<Rightarrow> (c' # cs', st2)))"

fun mapStructureRaw ::
    "('a node \<Rightarrow> 'a snode list \<Rightarrow> 's \<Rightarrow> 'a snode \<times> 's) \<Rightarrow> 'a node \<Rightarrow> 's \<Rightarrow> 'a snode \<times> 's"
  and mapChildrenRaw ::
    "('a node \<Rightarrow> 'a snode list \<Rightarrow> 's \<Rightarrow> 'a snode \<times> 's) \<Rightarrow> 'a node list \<Rightarrow> 's
      \<Rightarrow> 'a snode list \<times> 's"
where
  "mapStructureRaw f (Node a ks) st =
     (case mapChildrenRaw f ks st of (cs', st') \<Rightarrow> f (Node a ks) cs' st')"
| "mapChildrenRaw f [] st = ([], st)"
| "mapChildrenRaw f (k # ks) st =
     (case mapStructureRaw f k st of (c', st1) \<Rightarrow>
        (case mapChildrenRaw f ks st1 of (cs', st2) \<Rightarrow> (c' # cs', st2)))"

section \<open>Stateful tree builder\<close>

definition getInitialNodeState :: "'a node \<Rightarrow> node_state" where
  "getInitialNodeState n =
     (if isLeaf n
      then \<lparr>isSelected = False, isVisible = True, isIndeterminate = None, isExpanded = None\<rparr>
      else \<lparr>isSelected = False, isVisible = True, isIndeterminate = Some False,
             isExpanded = Some False\<rparr>)"

definition createStatefulTree :: "'a node \<Rightarrow> runtime \<Rightarrow> 'a snode \<times> runtime" where
  "createStatefulTree root st =
     mapStructureRaw
       (\<lambda>n mappedChildren st'.
          (StatefulNode (nextRef st') n (getInitialNodeState n) mappedChildren,
           st'\<lparr>nextRef := Suc (nextRef st')\<rparr>))
       root st"

section \<open>Reconciliation engine\<close>

definition isFiltered :: "'a CheckboxTreeProps \<Rightarrow> bool" where
  "isFiltered P = (length (searchTerm P) > 0 \<or> isAdditionalFilterApplied P)"

definition isActiveSearch :: "'a CheckboxTreeProps \<Rightarrow> bool" where
  "isActiveSearch P = (isSearchable P \<and> isFiltered P)"

text \<open>
  The locals of the branch case of \<open>mapFunction\<close> that its \<open>for\<close> loop sets.
\<close>

record childScan =
  modifyThisNode :: bool
  selectedChildFound :: bool
  unselectedChildFound :: bool
  indeterminateChildFound :: bool
  visibleChildFound :: bool

text \<open>
  The loop \<open>for (i = 0; i < oldChildren.length; i++)\<close> over \<open>oldChildren[i]\<close> and
  \<open>mappedChildren[i]\<close>. \<open>mapStructure\<close> hands \<open>mapFunction\<close> as many mapped children as
  the node has (lemma \<open>mapChildren_length\<close>), so the two lists end together.
\<close>

fun inspectChildren :: "'a snode list \<Rightarrow> 'a snode list \<Rightarrow> childScan \<Rightarrow> childScan" where
  "inspectChildren (oldChild # oldChildren) (newChild # mappedChildren) sc =
     inspectChildren oldChildren mappedChildren
       (sc\<lparr>modifyThisNode := (ref newChild \<noteq> ref oldChild \<or> modifyThisNode sc),
           selectedChildFound :=
             (isSelected (getNodeState newChild) \<or> selectedChildFound sc),
           unselectedChildFound :=
             (\<not> isSelected (getNodeState newChild) \<or> unselectedChildFound sc),
           indeterminateChildFound :=
             (isIndeterminate (getNodeState newChild) = Some True \<or> indeterminateChildFound sc),
           visibleChildFound :=
             (isVisible (getNodeState newChild) \<or> visibleChildFound sc)\<rparr>)"
| "inspectChildren _ _ sc = sc"

text \<open>
  \<open>Object.assign({}, node, {children: mappedChildren, state: newState})\<close>: a new object.
\<close>

definition replaceNode ::
    "'a snode \<Rightarrow> 'a snode list \<Rightarrow> node_state \<Rightarrow> runtime \<Rightarrow> 'a snode \<times> runtime" where
  "replaceNode n mappedChildren newState st =
     (StatefulNode (nextRef st) (raw n) newState mappedChildren,
      st\<lparr>nextRef := Suc (nextRef st)\<rparr>)"

definition mapFunction ::
    "'a CheckboxTreeProps \<Rightarrow> (string \<Rightarrow> bool) \<Rightarrow> bool \<Rightarrow> string list \<Rightarrow> string list
      \<Rightarrow> 'a snode \<Rightarrow> 'a snode list \<Rightarrow> runtime \<Rightarrow> 'a snode \<times> runtime" where
  "mapFunction P leafVisible expansionListProvided selectedSet expandedSet n mappedChildren st =
     (let nodeId = getNodeId P (raw n);
          s = getNodeState n
      in if isLeaf (raw n) then
           (let newIsSelected = (isSelectable P \<and> Set_has nodeId selectedSet);
                newIsVisible = leafVisible nodeId
            in if newIsSelected \<noteq> isSelected s \<or> newIsVisible \<noteq> isVisible s
               then replaceNode n mappedChildren
                      (s\<lparr>isSelected := newIsSelected, isVisible := newIsVisible\<rparr>) st
               else (n, st))
         else
           (let sc = inspectChildren (getStatefulChildren n) mappedChildren
                       \<lparr>modifyThisNode = False, selectedChildFound = False,
                        unselectedChildFound = False, indeterminateChildFound = False,
                        visibleChildFound = False\<rparr>;
                newIsSelected = (\<not> indeterminateChildFound sc \<and> \<not> unselectedChildFound sc);
                newIsIndeterminate =
                  (\<not> newIsSelected \<and> (indeterminateChildFound sc \<or> selectedChildFound sc));
                newIsVisible = visibleChildFound sc;
                newIsExpanded =
                  ((isActiveSearch P \<and> newIsVisible) \<or>
                   (if expansionListProvided then Set_has nodeId expandedSet
                    else (indeterminateChildFound sc \<or>
                          (selectedChildFound sc \<and>
                           (\<not> isMultiPick P \<or> unselectedChildFound sc)))));
                st1 = (if \<not> expansionListProvided \<and> newIsExpanded
                       then st\<lparr>generatedExpandedList :=
                                 Set_add nodeId (generatedExpandedList st)\<rparr>
                       else st)
            in if modifyThisNode sc \<or>
                  newIsSelected \<noteq> isSelected s \<or>
                  Some newIsIndeterminate \<noteq> isIndeterminate s \<or>
                  Some newIsExpanded \<noteq> isExpanded s \<or>
                  newIsVisible \<noteq> isVisible s
               then replaceNode n mappedChildren
                      (s\<lparr>isSelected := newIsSelected, isVisible := newIsVisible,
                         isIndeterminate := Some newIsIndeterminate,
                         isExpanded := Some newIsExpanded\<rparr>) st1
               else (n, st1)))"

definition singlePickWarning :: string where
  "singlePickWarning =
     ''CheckboxTree: isMultiPick = false, but more than one item selected.  Ignoring all but first item.''"

definition applyPropsToStatefulTree ::
    "'a snode \<Rightarrow> 'a CheckboxTreeProps \<Rightarrow> (string \<Rightarrow> bool) \<Rightarrow> string list option \<Rightarrow> runtime
      \<Rightarrow> 'a generatedTreeState \<times> runtime" where
  "applyPropsToStatefulTree root P leafVisible stateExpandedList st =
     (let tooMany = (\<not> isMultiPick P \<and> length (selectedList P) > 1);
          st0 = (if tooMany then st\<lparr>console := console st @ [singlePickWarning]\<rparr> else st);
          selected = (if tooMany then [selectedList P ! 0] else selectedList P);
          expanded = (case propsExpandedList P of Some l \<Rightarrow> Some l | None \<Rightarrow> stateExpandedList);
          expansionListProvided = (expanded \<noteq> None);
          selectedSet = new_Set selected;
          expandedSet = new_Set (case expanded of Some l \<Rightarrow> l | None \<Rightarrow> [])
      in case mapStructure
                (mapFunction P leafVisible expansionListProvided selectedSet expandedSet)
                root (st0\<lparr>generatedExpandedList := []\<rparr>)
         of (newStatefulTree, st1) \<Rightarrow>
           (\<lparr>expandedList =
                Array_from (if expansionListProvided then expandedSet
                            else generatedExpandedList st1),
             statefulTree = newStatefulTree\<rparr>,
            st1))"

section \<open>Visibility resolver\<close>

text \<open>
  \<open>addVisibleLeaves\<close> with the set \<open>visibleLeaves\<close> it fills passed through;
  \<open>forEachChild\<close> is its \<open>getNodeChildren(node).forEach\<close>. \<open>!filteredList\<close> holds for
  \<open>undefined\<close> only: an empty array is truthy.
\<close>

fun addVisibleLeaves ::
    "'a CheckboxTreeProps \<Rightarrow> string list \<Rightarrow> string list \<Rightarrow> 'a node \<Rightarrow> bool \<Rightarrow> string list
      \<Rightarrow> string list"
  and forEachChild ::
    "'a CheckboxTreeProps \<Rightarrow> string list \<Rightarrow> string list \<Rightarrow> 'a node list \<Rightarrow> bool \<Rightarrow> string list
      \<Rightarrow> string list"
where
  "addVisibleLeaves P searchTerms filteredSet (Node a ks) parentMatches visibleLeaves =
     (let nodeId = getNodeId P (Node a ks);
          nodeMatches = (if parentMatches then parentMatches
                         else searchPredicate P (Node a ks) searchTerms)
      in if ks = [] then
           (if nodeMatches \<and>
               (filteredList P = None \<or> (filteredList P \<noteq> None \<and> Set_has nodeId filteredSet))
            then Set_add nodeId visibleLeaves
            else visibleLeaves)
         else forEachChild P searchTerms filteredSet ks nodeMatches visibleLeaves)"
| "forEachChild P searchTerms filteredSet [] nodeMatches visibleLeaves = visibleLeaves"
| "forEachChild P searchTerms filteredSet (k # ks) nodeMatches visibleLeaves =
     forEachChild P searchTerms filteredSet ks nodeMatches
       (addVisibleLeaves P searchTerms filteredSet k nodeMatches visibleLeaves)"

text \<open>
  \<open>parseSearchQueryString\<close> (of \<open>SelectTree/Utils\<close>, not among the sources) only produces
  the terms handed to \<open>searchPredicate\<close>; it is a parameter.
\<close>

definition createIsLeafVisible ::
    "(string \<Rightarrow> string list) \<Rightarrow> 'a CheckboxTreeProps \<Rightarrow> string \<Rightarrow> bool" where
  "createIsLeafVisible parseSearchQueryString P =
     (if \<not> isActiveSearch P \<and> filteredList P = None then (\<lambda>nodeId. True)
      else
        (let searchTerms = parseSearchQueryString (searchTerm P);
             filteredSet = new_Set (case filteredList P of Some l \<Rightarrow> l | None \<Rightarrow> []);
             visibleLeaves = addVisibleLeaves P searchTerms filteredSet (tree P) False []
         in (\<lambda>nodeId. Set_has nodeId visibleLeaves)))"

section \<open>Vocabulary of the properties\<close>

text \<open>
  What a branch's loop finds among a list of children, as predicates on the list.
\<close>

definition anySelected :: "'a snode list \<Rightarrow> bool" where
  "anySelected cs = (\<exists>c \<in> set cs. isSelected (getNodeState c))"

definition anyUnselected :: "'a snode list \<Rightarrow> bool" where
  "anyUnselected cs = (\<exists>c \<in> set cs. \<not> isSelected (getNodeState c))"

definition anyIndeterminate :: "'a snode list \<Rightarrow> bool" where
  "anyIndeterminate cs = (\<exists>c \<in> set cs. isIndeterminate (getNodeState c) = Some True)"

definition anyVisible :: "'a snode list \<Rightarrow> bool" where
  "anyVisible cs = (\<exists>c \<in> set cs. isVisible (getNodeState c))"

definition branchState ::
    "'a CheckboxTreeProps \<Rightarrow> bool \<Rightarrow> string list \<Rightarrow> string \<Rightarrow> 'a snode list \<Rightarrow> node_state" where
  "branchState P provided expandedSet nodeId cs =
     \<lparr>isSelected = (\<not> anyIndeterminate cs \<and> \<not> anyUnselected cs),
      isVisible = anyVisible cs,
      isIndeterminate =
        Some (\<not> (\<not> anyIndeterminate cs \<and> \<not> anyUnselected cs) \<and>
              (anyIndeterminate cs \<or> anySelected cs)),
      isExpanded =
        Some ((isActiveSearch P \<and> anyVisible cs) \<or>
              (if provided then nodeId \<in> set expandedSet
               else (anyIndeterminate cs \<or>
                     (anySelected cs \<and> (\<not> isMultiPick P \<or> anyUnselected cs)))))\<rparr>"

text \<open>
  A stateful tree annotates a raw tree: the stateful children of a node wrap the children
  of the node it wraps. \<open>createStatefulTree\<close> builds such trees and
  \<open>applyPropsToStatefulTree\<close> keeps them so.
\<close>

fun wellFormed :: "'a snode \<Rightarrow> bool" where
  "wellFormed (StatefulNode r n s cs) =
     (map raw cs = getNodeChildren n \<and> (\<forall>c \<in> set cs. wellFormed c))"

text \<open>Every object of the tree lies below the next free address \<open>k\<close>.\<close>

fun refsBelow :: "nat \<Rightarrow> 'a snode \<Rightarrow> bool" where
  "refsBelow k (StatefulNode r n s cs) = (r < k \<and> (\<forall>c \<in> set cs. refsBelow k c))"

text \<open>All nodes of a stateful tree, the root first; its proper descendants.\<close>

fun nodes :: "'a snode \<Rightarrow> 'a snode list" where
  "nodes (StatefulNode r n s cs) = StatefulNode r n s cs # concat (map nodes cs)"

definition descendants :: "'a snode \<Rightarrow> 'a snode list" where
  "descendants n = concat (map nodes (getStatefulChildren n))"

definition descendantLeaves :: "'a snode \<Rightarrow> 'a snode list" where
  "descendantLeaves n = filter (\<lambda>d. isLeaf (raw d)) (descendants n)"

text \<open>
  A tree that already carries the state the engine computes for the given inputs: each
  leaf its selection and visibility, each branch the state derived from its children.
\<close>

fun reconciled ::
    "'a CheckboxTreeProps \<Rightarrow> (string \<Rightarrow> bool) \<Rightarrow> bool \<Rightarrow> string list \<Rightarrow> string list
      \<Rightarrow> 'a snode \<Rightarrow> bool" where
  "reconciled P leafVisible provided selectedSet expandedSet (StatefulNode r n s cs) =
     ((\<forall>c \<in> set cs. reconciled P leafVisible provided selectedSet expandedSet c) \<and>
      (if isLeaf n
       then isSelected s = (isSelectable P \<and> getNodeId P n \<in> set selectedSet) \<and>
            isVisible s = leafVisible (getNodeId P n)
       else s = branchState P provided expandedSet (getNodeId P n) cs))"

text \<open>
  What one run of \<open>mapStructure\<close> over a node \<open>n\<close> returns, the allocator going from
  \<open>k\<close> to \<open>k'\<close>: a reconciled annotation \<open>n'\<close> of the same raw node, which is \<open>n\<close> itself
  or an object allocated by this run.
\<close>

definition reconciles ::
    "'a CheckboxTreeProps \<Rightarrow> (string \<Rightarrow> bool) \<Rightarrow> bool \<Rightarrow> string list \<Rightarrow> string list
      \<Rightarrow> nat \<Rightarrow> nat \<Rightarrow> 'a snode \<Rightarrow> 'a snode \<Rightarrow> bool" where
  "reconciles P vis provided sel ex k k' n n' =
     (reconciled P vis provided sel ex n' \<and> wellFormed n' \<and> raw n' = raw n \<and>
      refsBelow k' n' \<and> (n' = n \<or> k \<le> ref n'))"

text \<open>
  The values \<open>applyPropsToStatefulTree\<close> computes before it walks the tree: the selected
  set after the single-pick trim, the expansion list in force, and \<open>mapFunction\<close> closed
  over them.
\<close>

definition selectedSetOf :: "'a CheckboxTreeProps \<Rightarrow> string list" where
  "selectedSetOf P =
     new_Set (if \<not> isMultiPick P \<and> length (selectedList P) > 1 then [selectedList P ! 0]
              else selectedList P)"

definition expandedListOf :: "'a CheckboxTreeProps \<Rightarrow> string list option \<Rightarrow> string list option" where
  "expandedListOf P stateExpandedList =
     (case propsExpandedList P of Some l \<Rightarrow> Some l | None \<Rightarrow> stateExpandedList)"

definition expandedSetOf :: "'a CheckboxTreeProps \<Rightarrow> string list option \<Rightarrow> string list" where
  "expandedSetOf P stateExpandedList =
     new_Set (case expandedListOf P stateExpandedList of Some l \<Rightarrow> l | None \<Rightarrow> [])"

definition engine ::
    "'a CheckboxTreeProps \<Rightarrow> (string \<Rightarrow> bool) \<Rightarrow> string list option
      \<Rightarrow> 'a snode \<Rightarrow> 'a snode list \<Rightarrow> runtime \<Rightarrow> 'a snode \<times> runtime" where
  "engine P leafVisible stateExpandedList =
     mapFunction P leafVisible (expandedListOf P stateExpandedList \<noteq> None) (selectedSetOf P)
       (expandedSetOf P stateExpandedList)"

text \<open>
  The ids of the expanded branches of a tree, children before their parent: the order in
  which \<open>mapStructure\<close> visits them.
\<close>

fun expandedBranchIds :: "'a CheckboxTreeProps \<Rightarrow> 'a snode \<Rightarrow> string list" where
  "expandedBranchIds P (StatefulNode r n s cs) =
     concat (map (expandedBranchIds P) cs) @
     (if \<not> isLeaf n \<and> isExpanded s = Some True then [getNodeId P n] else [])"

section \<open>Example inputs\<close>

text \<open>
  The tree root \<open>\<rightarrow>\<close> {A: [leaf1, leaf2], B: [leaf3]} of the spec's auto-expansion example,
  selectable and multi-pick with \<open>selectedList = [leaf1]\<close>, and its stateful tree built in
  an empty runtime.
\<close>

definition emptyRuntime :: runtime where
  "emptyRuntime = \<lparr>nextRef = 0, console = [], generatedExpandedList = []\<rparr>"

definition exampleTree :: "string node" where
  "exampleTree =
     Node ''root''
       [Node ''A'' [Node ''leaf1'' [], Node ''leaf2'' []], Node ''B'' [Node ''leaf3'' []]]"

definition exampleProps :: "string CheckboxTreeProps" where
  "exampleProps =
     \<lparr>tree = exampleTree, getNodeId = payload, isSelectable = True, isSearchable = False,
      isMultiPick = True, searchTerm = [], searchPredicate = (\<lambda>n terms. False),
      selectedList = [''leaf1''], propsExpandedList = None, filteredList = None,
      isAdditionalFilterApplied = False\<rparr>"

definition exampleStatefulTree :: "string snode" where
  "exampleStatefulTree = fst (createStatefulTree exampleTree emptyRuntime)"

definition exampleRuntime :: runtime where
  "exampleRuntime = snd (createStatefulTree exampleTree emptyRuntime)"

text \<open>Shorthand for the state of a leaf and of a branch.\<close>

definition leafState :: "bool \<Rightarrow> bool \<Rightarrow> node_state" where
  "leafState sel vis = \<lparr>isSelected = sel, isVisible = vis, isIndeterminate = None, isExpanded = None\<rparr>"

definition branchSt :: "bool \<Rightarrow> bool \<Rightarrow> bool \<Rightarrow> bool \<Rightarrow> node_state" where
  "branchSt sel vis ind ex = \<lparr>isSelected = sel, isVisible = vis, isIndeterminate = Some ind, isExpanded = Some ex\<rparr>"

text \<open>
  Branch A of the tree the engine returns for the example inputs with the selected list
  replaced by \<open>S\<close>.
\<close>

definition exampleBranchA :: "string list \<Rightarrow> string snode" where
  "exampleBranchA S =
     getStatefulChildren
       (statefulTree (fst (applyPropsToStatefulTree exampleStatefulTree
          (exampleProps\<lparr>selectedList := S\<rparr>) (\<lambda>nodeId. True) None exampleRuntime))) ! 0"

text \<open>
  The node a path of child indices leads to; whether a node on that path, its end
  included, satisfies \<open>m\<close>.
\<close>

fun nodeAt :: "'a node \<Rightarrow> nat list \<Rightarrow> 'a node option" where
  "nodeAt n [] = Some n"
| "nodeAt n (i # p) =
     (if i < length (getNodeChildren n) then nodeAt (getNodeChildren n ! i) p else None)"

fun matchesOnPath :: "('a node \<Rightarrow> bool) \<Rightarrow> 'a node \<Rightarrow> nat list \<Rightarrow> bool" where
  "matchesOnPath m n [] = m n"
| "matchesOnPath m n (i # p) =
     (m n \<or> (i < length (getNodeChildren n) \<and> matchesOnPath m (getNodeChildren n ! i) p))"

text \<open>
  What \<open>addVisibleLeaves\<close> adds for a node: the ids of its leaves that an ancestor, or a
  node on the way down, or they themselves match, and that pass the filtered list.
\<close>

definition shown ::
    "'a CheckboxTreeProps \<Rightarrow> string list \<Rightarrow> string list \<Rightarrow> bool \<Rightarrow> 'a node \<Rightarrow> string \<Rightarrow> bool" where
  "shown P searchTerms filteredSet parentMatches n x =
     (\<exists>p l. nodeAt n p = Some l \<and> isLeaf l \<and> getNodeId P l = x \<and>
        (parentMatches \<or> matchesOnPath (\<lambda>m. searchPredicate P m searchTerms) n p) \<and>
        (filteredList P = None \<or> x \<in> set filteredSet))"

text \<open>
  The example props with a search for one term, which a node matches when its id is that
  term; the stand-in tokenizer passes the search term on as one term.
\<close>

definition searchProps :: "string \<Rightarrow> string CheckboxTreeProps" where
  "searchProps term' =
     exampleProps\<lparr>isSearchable := True, searchTerm := term',
       searchPredicate := (\<lambda>n terms. payload n \<in> set terms)\<rparr>"

definition oneTerm :: "string \<Rightarrow> string list" where
  "oneTerm s = [s]"

text \<open>The node of a stateful tree that a path of child indices leads to.\<close>

fun statefulAt :: "'a snode \<Rightarrow> nat list \<Rightarrow> 'a snode option" where
  "statefulAt n [] = Some n"
| "statefulAt n (i # p) =
     (if i < length (getStatefulChildren n) then statefulAt (getStatefulChildren n ! i) p
      else None)"

section \<open>Sets and the children loop\<close>

lemma set_Set_add: "set (Set_add x s) = insert x (set s)"
  by (auto simp: Set_add_def)

lemma distinct_Set_add: "distinct s \<Longrightarrow> distinct (Set_add x s)"
  by (simp add: Set_add_def)

lemma foldl_Set_add_set: "set (foldl (\<lambda>s x. Set_add x s) acc xs) = set acc \<union> set xs"
  by (induction xs arbitrary: acc) (auto simp: set_Set_add)

lemma foldl_Set_add_distinct:
  "distinct acc \<Longrightarrow> distinct (foldl (\<lambda>s x. Set_add x s) acc xs)"
  by (induction xs arbitrary: acc) (auto simp: distinct_Set_add)

lemma set_new_Set: "set (new_Set xs) = set xs"
  by (simp add: new_Set_def foldl_Set_add_set)

lemma distinct_new_Set: "distinct (new_Set xs)"
  by (simp add: new_Set_def foldl_Set_add_distinct)

lemma Set_has_new_Set: "Set_has x (new_Set xs) = (x \<in> set xs)"
  by (simp add: Set_has_def set_new_Set)

lemma inspectChildren_modify:
  "length olds = length news \<Longrightarrow>
   modifyThisNode (inspectChildren olds news sc) =
     (modifyThisNode sc \<or> map ref news \<noteq> map ref olds)"
  by (induction olds news arbitrary: sc rule: list_induct2) auto

lemma inspectChildren_selected:
  "length olds = length news \<Longrightarrow>
   selectedChildFound (inspectChildren olds news sc) = (selectedChildFound sc \<or> anySelected news)"
  by (induction olds news arbitrary: sc rule: list_induct2) (auto simp: anySelected_def)

lemma inspectChildren_unselected:
  "length olds = length news \<Longrightarrow>
   unselectedChildFound (inspectChildren olds news sc) =
     (unselectedChildFound sc \<or> anyUnselected news)"
  by (induction olds news arbitrary: sc rule: list_induct2) (auto simp: anyUnselected_def)

lemma inspectChildren_indeterminate:
  "length olds = length news \<Longrightarrow>
   indeterminateChildFound (inspectChildren olds news sc) =
     (indeterminateChildFound sc \<or> anyIndeterminate news)"
  by (induction olds news arbitrary: sc rule: list_induct2) (auto simp: anyIndeterminate_def)

lemma inspectChildren_visible:
  "length olds = length news \<Longrightarrow>
   visibleChildFound (inspectChildren olds news sc) = (visibleChildFound sc \<or> anyVisible news)"
  by (induction olds news arbitrary: sc rule: list_induct2) (auto simp: anyVisible_def)

lemma mapFunction_leaf:
  "isLeaf (raw n) \<Longrightarrow>
   mapFunction P vis provided sel ex n mc st =
     (if (isSelectable P \<and> getNodeId P (raw n) \<in> set sel) \<noteq> isSelected (getNodeState n) \<or>
         vis (getNodeId P (raw n)) \<noteq> isVisible (getNodeState n)
      then replaceNode n mc
             ((getNodeState n)\<lparr>isSelected := (isSelectable P \<and> getNodeId P (raw n) \<in> set sel),
                              isVisible := vis (getNodeId P (raw n))\<rparr>) st
      else (n, st))"
  by (simp add: mapFunction_def Let_def Set_has_def)

lemma state_update_all:
  "s\<lparr>isSelected := a, isVisible := b, isIndeterminate := c, isExpanded := d\<rparr> =
     \<lparr>isSelected = a, isVisible = b, isIndeterminate = c, isExpanded = d\<rparr>"
  by (cases s) simp

lemma False_or: "(False \<or> Q) = Q"
  by simp

lemma state_differs:
  "(m \<or> a \<noteq> isSelected s \<or> Some c \<noteq> isIndeterminate s \<or> Some d \<noteq> isExpanded s \<or>
      b \<noteq> isVisible s) =
     (m \<or> s \<noteq> \<lparr>isSelected = a, isVisible = b, isIndeterminate = Some c, isExpanded = Some d\<rparr>)"
  by (cases s) auto

lemma mapFunction_branch:
  assumes "\<not> isLeaf (raw n)" and "length mc = length (getStatefulChildren n)"
  shows "mapFunction P vis provided sel ex n mc st =
     (let new = branchState P provided ex (getNodeId P (raw n)) mc;
          st1 = (if \<not> provided \<and> isExpanded new = Some True
                 then st\<lparr>generatedExpandedList :=
                           Set_add (getNodeId P (raw n)) (generatedExpandedList st)\<rparr>
                 else st)
      in if map ref mc \<noteq> map ref (getStatefulChildren n) \<or> getNodeState n \<noteq> new
         then replaceNode n mc new st1 else (n, st1))"
proof -
  have len: "length (getStatefulChildren n) = length mc" using assms(2) by simp
  show ?thesis
    unfolding mapFunction_def Let_def branchState_def
    apply (simp only: assms(1) if_False Set_has_def inspectChildren_modify [OF len]
        inspectChildren_selected [OF len] inspectChildren_unselected [OF len]
        inspectChildren_indeterminate [OF len] inspectChildren_visible [OF len]
        childScan.simps node_state.simps False_or eq_True state_update_all state_differs option.inject)
    done
qed


section \<open>One run of the engine\<close>

lemma mapChildren_length: "mapChildren f cs st = (cs', st') \<Longrightarrow> length cs' = length cs"
  by (induction cs arbitrary: st cs' st') (auto split: prod.splits)

lemma refsBelow_ref: "refsBelow k n \<Longrightarrow> ref n < k"
  by (cases n) simp

lemma refsBelow_mono: "refsBelow k n \<Longrightarrow> k \<le> k' \<Longrightarrow> refsBelow k' n"
  by (induction k n rule: refsBelow.induct) auto

lemma reconciles_weaken:
  "reconciles P vis provided sel ex k1 k2 n n' \<Longrightarrow> k \<le> k1 \<Longrightarrow> k2 \<le> k' \<Longrightarrow>
   reconciles P vis provided sel ex k k' n n'"
  by (auto simp: reconciles_def intro: refsBelow_mono)

lemma mapChildren_reconciles:
  assumes "\<And>c st c' st'. c \<in> set cs \<Longrightarrow> refsBelow (nextRef st) c \<Longrightarrow>
             mapStructure (mapFunction P vis provided sel ex) c st = (c', st') \<Longrightarrow>
             reconciles P vis provided sel ex (nextRef st) (nextRef st') c c' \<and>
             nextRef st \<le> nextRef st' \<and> console st' = console st"
    and "\<forall>c \<in> set cs. refsBelow (nextRef st) c"
    and "mapChildren (mapFunction P vis provided sel ex) cs st = (cs', st')"
  shows "list_all2 (reconciles P vis provided sel ex (nextRef st) (nextRef st')) cs cs' \<and>
         nextRef st \<le> nextRef st' \<and> console st' = console st"
  using assms
proof (induction cs arbitrary: st cs' st')
  case Nil
  then show ?case by simp
next
  case (Cons c cs)
  obtain c1 st1 where c1: "mapStructure (mapFunction P vis provided sel ex) c st = (c1, st1)"
    by fastforce
  obtain cs1 st2 where cs1: "mapChildren (mapFunction P vis provided sel ex) cs st1 = (cs1, st2)"
    by fastforce
  from Cons.prems(3) c1 cs1 have res: "cs' = c1 # cs1" "st' = st2" by auto
  have hd: "reconciles P vis provided sel ex (nextRef st) (nextRef st1) c c1"
    "nextRef st \<le> nextRef st1" "console st1 = console st"
    using Cons.prems(1) [of c st c1 st1] Cons.prems(2) c1 by auto
  have below: "\<forall>d \<in> set cs. refsBelow (nextRef st1) d"
    using Cons.prems(2) hd(2) by (auto intro: refsBelow_mono)
  have tl: "list_all2 (reconciles P vis provided sel ex (nextRef st1) (nextRef st2)) cs cs1 \<and>
        nextRef st1 \<le> nextRef st2 \<and> console st2 = console st1"
    by (rule Cons.IH [OF Cons.prems(1) below cs1]) auto
  have "list_all2 (reconciles P vis provided sel ex (nextRef st) (nextRef st2)) cs cs1"
    using tl hd(2) by (auto elim!: list_all2_mono intro: reconciles_weaken)
  moreover have "reconciles P vis provided sel ex (nextRef st) (nextRef st2) c c1"
    using hd(1) tl by (auto intro: reconciles_weaken)
  ultimately show ?case using res hd tl by simp
qed

lemma unchanged_children:
  assumes "list_all2 (reconciles P vis provided sel ex k k') cs cs'"
    and "\<forall>c \<in> set cs. refsBelow k c"
    and "map ref cs' = map ref cs"
  shows "cs' = cs"
  using assms
proof (induction cs cs' rule: list_all2_induct)
  case Nil
  then show ?case by simp
next
  case (Cons c cs c' cs')
  have "ref c < k" using Cons.prems(1) by (simp add: refsBelow_ref)
  moreover have "ref c' = ref c" using Cons.prems(2) by simp
  ultimately have "c' = c" using Cons.hyps(1) by (auto simp: reconciles_def)
  then show ?case using Cons by simp
qed

lemma mapStructure_reconciles:
  assumes "wellFormed n" and "refsBelow (nextRef st) n"
    and "mapStructure (mapFunction P vis provided sel ex) n st = (n', st')"
  shows "reconciles P vis provided sel ex (nextRef st) (nextRef st') n n' \<and>
         nextRef st \<le> nextRef st' \<and> console st' = console st"
  using assms
proof (induction n arbitrary: st n' st')
  case (StatefulNode r rn s cs)
  let ?F = "mapFunction P vis provided sel ex"
  let ?n = "StatefulNode r rn s cs"
  obtain cs1 st1 where cs1: "mapChildren ?F cs st = (cs1, st1)"
    by fastforce
  have wf: "map raw cs = getNodeChildren rn" "\<forall>c \<in> set cs. wellFormed c"
    using StatefulNode.prems(1) by auto
  have below: "r < nextRef st" "\<forall>c \<in> set cs. refsBelow (nextRef st) c"
    using StatefulNode.prems(2) by auto
  have kids: "list_all2 (reconciles P vis provided sel ex (nextRef st) (nextRef st1)) cs cs1"
    and mono1: "nextRef st \<le> nextRef st1" and con1: "console st1 = console st"
    using mapChildren_reconciles [where cs = cs, OF _ below(2) cs1] StatefulNode.IH wf(2)
    by blast+
  have len: "length cs1 = length cs"
    using kids by (simp add: list_all2_lengthD)
  have kids_rec: "\<forall>c \<in> set cs1. reconciled P vis provided sel ex c"
    and kids_wf: "\<forall>c \<in> set cs1. wellFormed c"
    and kids_below: "\<forall>c \<in> set cs1. refsBelow (nextRef st1) c"
    using kids by (auto simp: list_all2_conv_all_nth in_set_conv_nth reconciles_def)
  have kids_raw: "map raw cs1 = map raw cs"
    using kids by (auto simp: list_all2_conv_all_nth reconciles_def intro: nth_equalityI)
  have res: "?F ?n cs1 st1 = (n', st')"
    using StatefulNode.prems(3) cs1 by simp
  show ?case
  proof (cases "isLeaf rn")
    case True
    then have "cs = []" using wf(1) by (simp add: isLeaf_def)
    then have e: "cs1 = []" "st1 = st" using cs1 by auto
    show ?thesis
      using res True e below(1) \<open>cs = []\<close>
      by (auto simp: mapFunction_leaf replaceNode_def reconciles_def isLeaf_def split: if_splits)
  next
    case False
    let ?new = "branchState P provided ex (getNodeId P rn) cs1"
    let ?st2 = "if \<not> provided \<and> isExpanded ?new = Some True
                then st1\<lparr>generatedExpandedList :=
                          Set_add (getNodeId P rn) (generatedExpandedList st1)\<rparr>
                else st1"
    have st2: "nextRef ?st2 = nextRef st1" "console ?st2 = console st1" by auto
    have res2: "(if map ref cs1 \<noteq> map ref cs \<or> s \<noteq> ?new
                 then replaceNode ?n cs1 ?new ?st2 else (?n, ?st2)) = (n', st')"
    proof -
      have "?F ?n cs1 st1 =
        (let new = branchState P provided ex (getNodeId P (raw ?n)) cs1;
             st1' = (if \<not> provided \<and> isExpanded new = Some True
                 then st1\<lparr>generatedExpandedList :=
                           Set_add (getNodeId P (raw ?n)) (generatedExpandedList st1)\<rparr>
                 else st1)
         in if map ref cs1 \<noteq> map ref (getStatefulChildren ?n) \<or> getNodeState ?n \<noteq> new
            then replaceNode ?n cs1 new st1' else (?n, st1'))"
        by (rule mapFunction_branch) (use False len in simp_all)
      then show ?thesis
        using res unfolding Let_def by (simp only: snode.sel)
    qed
    show ?thesis
    proof (cases "map ref cs1 \<noteq> map ref cs \<or> s \<noteq> ?new")
      case True
      then have n': "n' = StatefulNode (nextRef st1) rn ?new cs1"
        and st': "nextRef st' = Suc (nextRef st1)" "console st' = console st1"
        using res2 st2 by (auto simp: replaceNode_def)
      have "refsBelow (nextRef st') n'"
        using n' st' kids_below by (auto intro: refsBelow_mono)
      then show ?thesis
        using n' st' kids_rec kids_wf kids_raw wf(1) False mono1 con1
        by (simp add: reconciles_def)
    next
      case False
      then have same: "cs1 = cs" "s = ?new"
        using unchanged_children [OF kids below(2)] by auto
      from False res2 have n': "n' = ?n" and st': "st' = ?st2" by auto
      have "refsBelow (nextRef st') n'"
        using n' st' st2 mono1 StatefulNode.prems(2) by (auto intro: refsBelow_mono)
      then show ?thesis
        using n' st' st2 same kids_rec StatefulNode.prems(1) \<open>\<not> isLeaf rn\<close> mono1 con1
        by (simp add: reconciles_def)
    qed
  qed
qed


lemma mapChildren_fixed:
  assumes "\<And>c st. c \<in> set cs \<Longrightarrow>
             \<exists>st'. mapStructure f c st = (c, st') \<and> nextRef st' = nextRef st \<and>
                   console st' = console st"
  shows "\<exists>st'. mapChildren f cs st = (cs, st') \<and> nextRef st' = nextRef st \<and>
               console st' = console st"
  using assms
proof (induction cs arbitrary: st)
  case Nil
  then show ?case by simp
next
  case (Cons c cs)
  obtain st1 where c: "mapStructure f c st = (c, st1)" "nextRef st1 = nextRef st"
      "console st1 = console st"
    using Cons.prems [of c st] by auto
  obtain st2 where cs: "mapChildren f cs st1 = (cs, st2)" "nextRef st2 = nextRef st1"
      "console st2 = console st1"
    using Cons.IH [of st1] Cons.prems by auto
  show ?case using c cs by simp
qed

lemma mapStructure_fixed:
  assumes "wellFormed n" and "reconciled P vis provided sel ex n"
  shows "\<exists>st'. mapStructure (mapFunction P vis provided sel ex) n st = (n, st') \<and>
               nextRef st' = nextRef st \<and> console st' = console st"
  using assms
proof (induction n arbitrary: st)
  case (StatefulNode r rn s cs)
  let ?F = "mapFunction P vis provided sel ex"
  let ?n = "StatefulNode r rn s cs"
  have "\<And>c st. c \<in> set cs \<Longrightarrow>
          \<exists>st'. mapStructure ?F c st = (c, st') \<and> nextRef st' = nextRef st \<and>
                console st' = console st"
    using StatefulNode by auto
  then obtain st1 where cs: "mapChildren ?F cs st = (cs, st1)" "nextRef st1 = nextRef st"
      "console st1 = console st"
    using mapChildren_fixed [of cs ?F st] by blast
  show ?case
  proof (cases "isLeaf rn")
    case True
    then show ?thesis
      using cs StatefulNode.prems(2) by (simp add: mapFunction_leaf)
  next
    case False
    have "?F ?n cs st1 =
        (let new = branchState P provided ex (getNodeId P (raw ?n)) cs;
             st1' = (if \<not> provided \<and> isExpanded new = Some True
                 then st1\<lparr>generatedExpandedList :=
                           Set_add (getNodeId P (raw ?n)) (generatedExpandedList st1)\<rparr>
                 else st1)
         in if map ref cs \<noteq> map ref (getStatefulChildren ?n) \<or> getNodeState ?n \<noteq> new
            then replaceNode ?n cs new st1' else (?n, st1'))"
      by (rule mapFunction_branch) (use False in simp_all)
    moreover have "s = branchState P provided ex (getNodeId P rn) cs"
      using StatefulNode.prems(2) False by simp
    ultimately show ?thesis
      using cs by (simp add: Let_def)
  qed
qed

lemma nodes_self: "n \<in> set (nodes n)"
  by (cases n) simp

lemma nodes_reconciled:
  "reconciled P vis provided sel ex n \<Longrightarrow> b \<in> set (nodes n) \<Longrightarrow>
   reconciled P vis provided sel ex b"
  by (induction n) auto

lemma nodes_wellFormed: "wellFormed n \<Longrightarrow> b \<in> set (nodes n) \<Longrightarrow> wellFormed b"
  by (induction n) auto

lemma mapFunction_selectedList [simp]:
  "mapFunction (P\<lparr>selectedList := x\<rparr>) = mapFunction P"
  unfolding mapFunction_def isActiveSearch_def isFiltered_def
  by (simp add: Let_def cong: if_cong split del: if_split)


lemma new_Set_first_occurrence: "new_Set xs = rev (remdups (rev xs))"
  by (induction xs rule: rev_induct) (auto simp: new_Set_def Set_add_def)

lemma mapChildren_console:
  assumes "\<And>ch st. ch \<in> set cs \<Longrightarrow>
             mapStructure f ch (st\<lparr>console := c\<rparr>) =
               (case mapStructure f ch st of (n', st') \<Rightarrow> (n', st'\<lparr>console := c\<rparr>))"
  shows "mapChildren f cs (st\<lparr>console := c\<rparr>) =
           (case mapChildren f cs st of (cs', st') \<Rightarrow> (cs', st'\<lparr>console := c\<rparr>))"
  using assms by (induction cs arbitrary: st) (simp_all split: prod.splits)

lemma mapStructure_console:
  "mapStructure (mapFunction P vis provided sel ex) n (st\<lparr>console := c\<rparr>) =
     (case mapStructure (mapFunction P vis provided sel ex) n st of
        (n', st') \<Rightarrow> (n', st'\<lparr>console := c\<rparr>))"
proof (induction n arbitrary: st)
  case (StatefulNode r rn s cs)
  let ?F = "mapFunction P vis provided sel ex"
  obtain cs1 st1 where cs1: "mapChildren ?F cs st = (cs1, st1)"
    by fastforce
  have "mapChildren ?F cs (st\<lparr>console := c\<rparr>) =
           (case mapChildren ?F cs st of (cs', st') \<Rightarrow> (cs', st'\<lparr>console := c\<rparr>))"
    by (rule mapChildren_console) (use StatefulNode in simp)
  then have cs2: "mapChildren ?F cs (st\<lparr>console := c\<rparr>) = (cs1, st1\<lparr>console := c\<rparr>)"
    using cs1 by simp
  have len: "length cs1 = length cs"
    using cs1 by (rule mapChildren_length)
  show ?case
  proof (cases "isLeaf rn")
    case True
    then show ?thesis
      using cs1 cs2 by (simp add: mapFunction_leaf replaceNode_def)
  next
    case False
    then show ?thesis
      using cs1 cs2 len
      by (cases provided) (simp_all add: mapFunction_branch Let_def replaceNode_def)
  qed
qed


lemma applyProps_unfold:
  "applyPropsToStatefulTree root P leafVisible stateExpandedList st =
     (case mapStructure (engine P leafVisible stateExpandedList) root
             ((if \<not> isMultiPick P \<and> length (selectedList P) > 1
               then st\<lparr>console := console st @ [singlePickWarning]\<rparr> else st)
              \<lparr>generatedExpandedList := []\<rparr>)
      of (t, st1) \<Rightarrow>
        (\<lparr>expandedList = (if expandedListOf P stateExpandedList \<noteq> None
                           then expandedSetOf P stateExpandedList
                           else generatedExpandedList st1),
          statefulTree = t\<rparr>, st1))"
  unfolding applyPropsToStatefulTree_def engine_def selectedSetOf_def expandedListOf_def
    expandedSetOf_def Array_from_def Let_def
  by (rule refl)


lemma mapStructure_console_same:
  assumes "mapStructure (mapFunction P vis provided sel ex) n st = (n', st')"
  shows "console st' = console st"
proof -
  have "mapStructure (mapFunction P vis provided sel ex) n (st\<lparr>console := console st\<rparr>) =
      (n', st'\<lparr>console := console st\<rparr>)"
    by (simp only: mapStructure_console assms prod.case)
  then have "st' = st'\<lparr>console := console st\<rparr>"
    using assms by simp
  then have "console st' = console (st'\<lparr>console := console st\<rparr>)"
    by simp
  then show ?thesis by simp
qed

lemma applyProps_run:
  assumes "applyPropsToStatefulTree root P vis se st = (g, st')"
  shows "\<exists>st0. nextRef st0 = nextRef st \<and> generatedExpandedList st0 = [] \<and>
           mapStructure (engine P vis se) root st0 = (statefulTree g, st') \<and>
           expandedList g = (if expandedListOf P se \<noteq> None then expandedSetOf P se
                             else generatedExpandedList st')"
proof -
  let ?st0 = "(if \<not> isMultiPick P \<and> length (selectedList P) > 1
               then st\<lparr>console := console st @ [singlePickWarning]\<rparr> else st)
              \<lparr>generatedExpandedList := []\<rparr>"
  obtain t st1 where run: "mapStructure (engine P vis se) root ?st0 = (t, st1)"
    by fastforce
  have "g = \<lparr>expandedList = (if expandedListOf P se \<noteq> None then expandedSetOf P se
                             else generatedExpandedList st1), statefulTree = t\<rparr>" "st' = st1"
    using assms unfolding applyProps_unfold run by simp_all
  then have "mapStructure (engine P vis se) root ?st0 = (statefulTree g, st') \<and>
           expandedList g = (if expandedListOf P se \<noteq> None then expandedSetOf P se
                             else generatedExpandedList st')"
    using run by simp
  moreover have "nextRef ?st0 = nextRef st" "generatedExpandedList ?st0 = []"
    by simp_all
  ultimately show ?thesis by blast
qed

lemma applyProps_reconciled:
  assumes "wellFormed root" and "refsBelow (nextRef st) root"
    and "applyPropsToStatefulTree root P vis se st = (g, st')"
  shows "reconciled P vis (expandedListOf P se \<noteq> None) (selectedSetOf P) (expandedSetOf P se)
           (statefulTree g)"
    and "wellFormed (statefulTree g)" and "raw (statefulTree g) = raw root"
    and "refsBelow (nextRef st') (statefulTree g)" and "nextRef st \<le> nextRef st'"
proof -
  obtain st0 where st0: "nextRef st0 = nextRef st"
      "mapStructure (engine P vis se) root st0 = (statefulTree g, st')"
    using applyProps_run [OF assms(3)] by blast
  have "reconciles P vis (expandedListOf P se \<noteq> None) (selectedSetOf P) (expandedSetOf P se)
          (nextRef st0) (nextRef st') root (statefulTree g) \<and> nextRef st0 \<le> nextRef st' \<and>
        console st' = console st0"
    by (rule mapStructure_reconciles [OF assms(1)])
      (use assms(2) st0 in \<open>simp_all add: engine_def\<close>)
  then show "reconciled P vis (expandedListOf P se \<noteq> None) (selectedSetOf P) (expandedSetOf P se)
           (statefulTree g)"
    and "wellFormed (statefulTree g)" and "raw (statefulTree g) = raw root"
    and "refsBelow (nextRef st') (statefulTree g)" and "nextRef st \<le> nextRef st'"
    using st0(1) by (simp_all add: reconciles_def)
qed

lemma reconciled_branch:
  assumes "reconciled P vis provided sel ex b" and "\<not> isLeaf (raw b)"
  shows "getNodeState b = branchState P provided ex (getNodeId P (raw b)) (getStatefulChildren b)"
  using assms by (cases b) simp

section \<open>The example run\<close>

lemma exampleStatefulTree_eq:
  "createStatefulTree exampleTree emptyRuntime =
     (StatefulNode 5 exampleTree (branchSt False True False False)
        [StatefulNode 2 (Node ''A'' [Node ''leaf1'' [], Node ''leaf2'' []])
           (branchSt False True False False)
           [StatefulNode 0 (Node ''leaf1'' []) (leafState False True) [],
            StatefulNode 1 (Node ''leaf2'' []) (leafState False True) []],
         StatefulNode 4 (Node ''B'' [Node ''leaf3'' []]) (branchSt False True False False)
           [StatefulNode 3 (Node ''leaf3'' []) (leafState False True) []]],
      \<lparr>nextRef = 6, console = [], generatedExpandedList = []\<rparr>)"
  by (simp add: createStatefulTree_def exampleTree_def emptyRuntime_def getInitialNodeState_def
      isLeaf_def leafState_def branchSt_def)

lemma exampleStatefulTree_val:
  "exampleStatefulTree =
     StatefulNode 5 exampleTree (branchSt False True False False)
        [StatefulNode 2 (Node ''A'' [Node ''leaf1'' [], Node ''leaf2'' []])
           (branchSt False True False False)
           [StatefulNode 0 (Node ''leaf1'' []) (leafState False True) [],
            StatefulNode 1 (Node ''leaf2'' []) (leafState False True) []],
         StatefulNode 4 (Node ''B'' [Node ''leaf3'' []]) (branchSt False True False False)
           [StatefulNode 3 (Node ''leaf3'' []) (leafState False True) []]]"
  and exampleRuntime_val:
  "exampleRuntime = \<lparr>nextRef = 6, console = [], generatedExpandedList = []\<rparr>"
  by (simp_all add: exampleStatefulTree_def exampleRuntime_def exampleStatefulTree_eq)

lemma example_run:
  "applyPropsToStatefulTree exampleStatefulTree exampleProps (\<lambda>nodeId. True) None exampleRuntime =
     (\<lparr>expandedList = [''A'', ''root''],
       statefulTree =
         StatefulNode 8 exampleTree (branchSt False True True True)
           [StatefulNode 7 (Node ''A'' [Node ''leaf1'' [], Node ''leaf2'' []])
              (branchSt False True True True)
              [StatefulNode 6 (Node ''leaf1'' []) (leafState True True) [],
               StatefulNode 1 (Node ''leaf2'' []) (leafState False True) []],
            StatefulNode 4 (Node ''B'' [Node ''leaf3'' []]) (branchSt False True False False)
              [StatefulNode 3 (Node ''leaf3'' []) (leafState False True) []]]\<rparr>,
      \<lparr>nextRef = 9, console = [], generatedExpandedList = [''A'', ''root'']\<rparr>)"
  by (simp add: exampleStatefulTree_val exampleRuntime_val
      applyPropsToStatefulTree_def mapFunction_def exampleProps_def exampleTree_def
      isLeaf_def leafState_def branchSt_def new_Set_def Set_add_def Set_has_def Array_from_def
      replaceNode_def isActiveSearch_def isFiltered_def Let_def)


lemma engine_single_pick:
  assumes "\<not> isMultiPick P" and "length (selectedList P) > 1"
  shows "engine (P\<lparr>selectedList := [hd (selectedList P)]\<rparr>) vis se = engine P vis se"
proof -
  have "selectedList P ! 0 = hd (selectedList P)"
    using assms(2) by (cases "selectedList P") auto
  then show ?thesis
    using assms by (simp add: engine_def selectedSetOf_def expandedListOf_def expandedSetOf_def)
qed

section \<open>The generated expansion list\<close>

lemma mapStructure_node_shape:
  assumes wf: "wellFormed n" and below: "refsBelow (nextRef st) n"
    and kids: "mapChildren (mapFunction P vis provided sel ex) (getStatefulChildren n) st =
                 (cs1, st1)"
    and run: "mapStructure (mapFunction P vis provided sel ex) n st = (n', st')"
  shows "getStatefulChildren n' = cs1"
    and "generatedExpandedList st' =
           (if \<not> provided \<and> \<not> isLeaf (raw n) \<and> isExpanded (getNodeState n') = Some True
            then Set_add (getNodeId P (raw n)) (generatedExpandedList st1)
            else generatedExpandedList st1)"
proof -
  let ?F = "mapFunction P vis provided sel ex"
  obtain r rn s cs where n: "n = StatefulNode r rn s cs"
    by (cases n)
  have wfc: "map raw cs = getNodeChildren rn" "\<forall>c \<in> set cs. wellFormed c"
    using wf n by auto
  have belowc: "\<forall>c \<in> set cs. refsBelow (nextRef st) c"
    using below n by auto
  have cs1: "mapChildren ?F cs st = (cs1, st1)"
    using kids n by simp
  have elem: "reconciles P vis provided sel ex (nextRef st) (nextRef st') c c' \<and>
      nextRef st \<le> nextRef st' \<and> console st' = console st"
    if "c \<in> set cs" "refsBelow (nextRef st) c" "mapStructure ?F c st = (c', st')"
    for c st c' st'
    using mapStructure_reconciles [OF _ that(2,3)] wfc(2) that(1) by blast
  have rel: "list_all2 (reconciles P vis provided sel ex (nextRef st) (nextRef st1)) cs cs1 \<and>
      nextRef st \<le> nextRef st1 \<and> console st1 = console st"
    using mapChildren_reconciles [OF _ belowc cs1] elem by blast
  have len: "length cs1 = length cs"
    using cs1 by (rule mapChildren_length)
  have res: "?F n cs1 st1 = (n', st')"
    using run cs1 n by simp
  have "getStatefulChildren n' = cs1 \<and> generatedExpandedList st' =
           (if \<not> provided \<and> \<not> isLeaf (raw n) \<and> isExpanded (getNodeState n') = Some True
            then Set_add (getNodeId P (raw n)) (generatedExpandedList st1)
            else generatedExpandedList st1)"
  proof (cases "isLeaf rn")
    case True
    then have "cs = []" using wfc(1) by (simp add: isLeaf_def)
    then have "cs1 = []" using cs1 by auto
    then show ?thesis
      using res True n \<open>cs = []\<close>
      by (auto simp: mapFunction_leaf replaceNode_def split: if_splits)
  next
    case False
    let ?new = "branchState P provided ex (getNodeId P rn) cs1"
    let ?st2 = "if \<not> provided \<and> isExpanded ?new = Some True
                then st1\<lparr>generatedExpandedList :=
                          Set_add (getNodeId P rn) (generatedExpandedList st1)\<rparr>
                else st1"
    have res2: "(if map ref cs1 \<noteq> map ref cs \<or> s \<noteq> ?new
                 then replaceNode n cs1 ?new ?st2 else (n, ?st2)) = (n', st')"
    proof -
      have "?F n cs1 st1 =
        (let new = branchState P provided ex (getNodeId P (raw n)) cs1;
             st1' = (if \<not> provided \<and> isExpanded new = Some True
                 then st1\<lparr>generatedExpandedList :=
                           Set_add (getNodeId P (raw n)) (generatedExpandedList st1)\<rparr>
                 else st1)
         in if map ref cs1 \<noteq> map ref (getStatefulChildren n) \<or> getNodeState n \<noteq> new
            then replaceNode n cs1 new st1' else (n, st1'))"
        by (rule mapFunction_branch) (use False len n in simp_all)
      then show ?thesis
        using res unfolding Let_def n by (simp only: snode.sel)
    qed
    show ?thesis
    proof (cases "map ref cs1 \<noteq> map ref cs \<or> s \<noteq> ?new")
      case True
      then have "n' = StatefulNode (nextRef ?st2) rn ?new cs1"
        and "generatedExpandedList st' = generatedExpandedList ?st2"
        using res2 n by (auto simp: replaceNode_def)
      then show ?thesis
        using False n by (cases provided) simp_all
    next
      case same: False
      then have "cs1 = cs" "s = ?new"
        using unchanged_children [of P vis provided sel ex "nextRef st" "nextRef st1" cs cs1]
          rel belowc by auto
      moreover from same res2 have "n' = n" and "st' = ?st2" by auto
      ultimately show ?thesis
        using False n by (cases provided) simp_all
    qed
  qed
  then show "getStatefulChildren n' = cs1"
    and "generatedExpandedList st' =
           (if \<not> provided \<and> \<not> isLeaf (raw n) \<and> isExpanded (getNodeState n') = Some True
            then Set_add (getNodeId P (raw n)) (generatedExpandedList st1)
            else generatedExpandedList st1)"
    by simp_all
qed

lemma mapChildren_generated:
  assumes "\<And>c st c' st'. c \<in> set cs \<Longrightarrow> refsBelow (nextRef st) c \<Longrightarrow>
             mapStructure (mapFunction P vis provided sel ex) c st = (c', st') \<Longrightarrow>
             generatedExpandedList st' =
               foldl (\<lambda>s x. Set_add x s) (generatedExpandedList st)
                 (if provided then [] else expandedBranchIds P c')"
    and "\<forall>c \<in> set cs. wellFormed c"
    and "\<forall>c \<in> set cs. refsBelow (nextRef st) c"
    and "mapChildren (mapFunction P vis provided sel ex) cs st = (cs', st')"
  shows "generatedExpandedList st' =
           foldl (\<lambda>s x. Set_add x s) (generatedExpandedList st)
             (if provided then [] else concat (map (expandedBranchIds P) cs'))"
  using assms
proof (induction cs arbitrary: st cs' st')
  case Nil
  then show ?case by simp
next
  case (Cons c cs)
  let ?F = "mapFunction P vis provided sel ex"
  obtain c1 st1 where c1: "mapStructure ?F c st = (c1, st1)"
    by fastforce
  obtain cs1 st2 where cs1: "mapChildren ?F cs st1 = (cs1, st2)"
    by fastforce
  from Cons.prems(4) c1 cs1 have res: "cs' = c1 # cs1" "st' = st2" by auto
  have "nextRef st \<le> nextRef st1"
    using mapStructure_reconciles [OF _ _ c1] Cons.prems(2,3) by simp
  then have below: "\<forall>d \<in> set cs. refsBelow (nextRef st1) d"
    using Cons.prems(3) by (auto intro: refsBelow_mono)
  have hd: "generatedExpandedList st1 =
      foldl (\<lambda>s x. Set_add x s) (generatedExpandedList st)
        (if provided then [] else expandedBranchIds P c1)"
    using Cons.prems(1) [of c st c1 st1] Cons.prems(3) c1 by simp
  have tl: "generatedExpandedList st2 =
      foldl (\<lambda>s x. Set_add x s) (generatedExpandedList st1)
        (if provided then [] else concat (map (expandedBranchIds P) cs1))"
    by (rule Cons.IH [OF Cons.prems(1) _ below cs1]) (use Cons.prems(2) in auto)
  show ?case
    using res hd tl by simp
qed

lemma mapStructure_generated:
  assumes "wellFormed n" and "refsBelow (nextRef st) n"
    and "mapStructure (mapFunction P vis provided sel ex) n st = (n', st')"
  shows "generatedExpandedList st' =
           foldl (\<lambda>s x. Set_add x s) (generatedExpandedList st)
             (if provided then [] else expandedBranchIds P n')"
  using assms
proof (induction n arbitrary: st n' st')
  case (StatefulNode r rn s cs)
  let ?F = "mapFunction P vis provided sel ex"
  let ?n = "StatefulNode r rn s cs"
  obtain cs1 st1 where cs1: "mapChildren ?F cs st = (cs1, st1)"
    by fastforce
  have wfc: "\<forall>c \<in> set cs. wellFormed c"
    using StatefulNode.prems(1) by auto
  have belowc: "\<forall>c \<in> set cs. refsBelow (nextRef st) c"
    using StatefulNode.prems(2) by auto
  have kids: "generatedExpandedList st1 =
      foldl (\<lambda>s x. Set_add x s) (generatedExpandedList st)
        (if provided then [] else concat (map (expandedBranchIds P) cs1))"
    by (rule mapChildren_generated [OF _ wfc belowc cs1])
      (use StatefulNode.IH wfc in auto)
  have shape: "getStatefulChildren n' = cs1"
    "generatedExpandedList st' =
       (if \<not> provided \<and> \<not> isLeaf (raw ?n) \<and> isExpanded (getNodeState n') = Some True
        then Set_add (getNodeId P (raw ?n)) (generatedExpandedList st1)
        else generatedExpandedList st1)"
    using mapStructure_node_shape [OF StatefulNode.prems(1,2) _ StatefulNode.prems(3)] cs1
    by simp_all
  have "raw n' = rn"
    using mapStructure_reconciles [OF StatefulNode.prems] by (simp add: reconciles_def)
  then have "expandedBranchIds P n' =
      concat (map (expandedBranchIds P) cs1) @
      (if \<not> isLeaf rn \<and> isExpanded (getNodeState n') = Some True then [getNodeId P rn] else [])"
    using shape(1) by (cases n') simp
  then show ?case
    using shape(2) kids by simp
qed

section \<open>Facts about a whole run\<close>

lemma example_wellFormed: "wellFormed exampleStatefulTree"
  by (simp add: exampleStatefulTree_val exampleTree_def)

lemma example_refsBelow: "refsBelow (nextRef exampleRuntime) exampleStatefulTree"
  by (simp add: exampleStatefulTree_val exampleRuntime_val)

lemma applyProps_generated:
  assumes "wellFormed root" and "refsBelow (nextRef st) root"
    and "applyPropsToStatefulTree root P vis se st = (g, st')"
  shows "generatedExpandedList st' =
           (if expandedListOf P se \<noteq> None then []
            else new_Set (expandedBranchIds P (statefulTree g)))"
proof -
  obtain st0 where st0: "nextRef st0 = nextRef st" "generatedExpandedList st0 = []"
      "mapStructure (engine P vis se) root st0 = (statefulTree g, st')"
    using applyProps_run [OF assms(3)] by blast
  have "generatedExpandedList st' =
      foldl (\<lambda>s x. Set_add x s) (generatedExpandedList st0)
        (if expandedListOf P se \<noteq> None then [] else expandedBranchIds P (statefulTree g))"
    by (rule mapStructure_generated [OF assms(1)])
      (use assms(2) st0 in \<open>simp_all add: engine_def\<close>)
  then show ?thesis
    using st0(2) by (simp add: new_Set_def)
qed

section \<open>Tri-state selection in a reconciled tree\<close>

lemma nodes_eq: "nodes n = n # descendants n"
  by (cases n) (simp add: descendants_def)

lemma wellFormed_leaf_children: "wellFormed n \<Longrightarrow> isLeaf (raw n) \<Longrightarrow> getStatefulChildren n = []"
  by (cases n) (simp add: isLeaf_def)

lemma wellFormed_branch_children:
  "wellFormed n \<Longrightarrow> \<not> isLeaf (raw n) \<Longrightarrow> getStatefulChildren n \<noteq> []"
  by (cases n) (auto simp: isLeaf_def)

lemma subtree_selected:
  assumes "wellFormed n" and "reconciled P vis provided sel ex n"
  shows "(isSelected (getNodeState n) \<and> isIndeterminate (getNodeState n) \<noteq> Some True) =
         ((\<forall>l \<in> set (nodes n). isLeaf (raw l) \<longrightarrow> isSelected (getNodeState l)) \<and>
          (\<forall>d \<in> set (nodes n). isIndeterminate (getNodeState d) \<noteq> Some True))"
  using assms
proof (induction n)
  case (StatefulNode r rn s cs)
  show ?case
  proof (cases "isLeaf rn")
    case True
    then have "cs = []"
      using StatefulNode.prems(1) by (simp add: isLeaf_def)
    then show ?thesis using True by auto
  next
    case False
    have kids: "(isSelected (getNodeState c) \<and> isIndeterminate (getNodeState c) \<noteq> Some True) =
         ((\<forall>l \<in> set (nodes c). isLeaf (raw l) \<longrightarrow> isSelected (getNodeState l)) \<and>
          (\<forall>d \<in> set (nodes c). isIndeterminate (getNodeState d) \<noteq> Some True))"
      if "c \<in> set cs" for c
      using StatefulNode.IH [OF that] StatefulNode.prems that by simp
    have s: "s = branchState P provided ex (getNodeId P rn) cs"
      using StatefulNode.prems(2) False by simp
    have sel: "isSelected s =
        (\<forall>c \<in> set cs. isSelected (getNodeState c) \<and> isIndeterminate (getNodeState c) \<noteq> Some True)"
      unfolding s by (auto simp: branchState_def anyIndeterminate_def anyUnselected_def)
    have ind: "isSelected s \<Longrightarrow> isIndeterminate s \<noteq> Some True"
      unfolding s by (simp add: branchState_def)
    show ?thesis
      using False sel ind kids by (auto simp: Ball_def)
  qed
qed


lemma selected_has_leaf:
  assumes "wellFormed n" and "reconciled P vis provided sel ex n"
    and "isSelected (getNodeState n)"
  shows "\<exists>l \<in> set (nodes n). isLeaf (raw l) \<and> isSelected (getNodeState l)"
  using assms
proof (induction n)
  case (StatefulNode r rn s cs)
  show ?case
  proof (cases "isLeaf rn")
    case True
    then show ?thesis using StatefulNode.prems(3) by auto
  next
    case False
    have s: "s = branchState P provided ex (getNodeId P rn) cs"
      using StatefulNode.prems(2) False by simp
    obtain c where c: "c \<in> set cs"
      using StatefulNode.prems(1) False by (cases cs) (auto simp: isLeaf_def)
    have "isSelected (getNodeState c)"
      using StatefulNode.prems(3) c unfolding s
      by (auto simp: branchState_def anyUnselected_def)
    then obtain l where "l \<in> set (nodes c)" "isLeaf (raw l)" "isSelected (getNodeState l)"
      using StatefulNode.IH [OF c] StatefulNode.prems(1,2) c by auto
    then show ?thesis using c by auto
  qed
qed

lemma selected_leaf_shows:
  assumes "wellFormed n" and "reconciled P vis provided sel ex n"
    and "l \<in> set (nodes n)" and "isLeaf (raw l)" and "isSelected (getNodeState l)"
  shows "isSelected (getNodeState n) \<or> isIndeterminate (getNodeState n) = Some True"
  using assms
proof (induction n)
  case (StatefulNode r rn s cs)
  show ?case
  proof (cases "isLeaf rn")
    case True
    then have "cs = []"
      using StatefulNode.prems(1) by (simp add: isLeaf_def)
    then show ?thesis using StatefulNode.prems(3,5) by auto
  next
    case False
    have s: "s = branchState P provided ex (getNodeId P rn) cs"
      using StatefulNode.prems(2) False by simp
    have "l \<noteq> StatefulNode r rn s cs"
      using False StatefulNode.prems(4) by auto
    then obtain c where c: "c \<in> set cs" "l \<in> set (nodes c)"
      using StatefulNode.prems(3) by auto
    have "isSelected (getNodeState c) \<or> isIndeterminate (getNodeState c) = Some True"
      using StatefulNode.IH [OF c(1) _ _ c(2)] StatefulNode.prems c(1) by auto
    then have "anySelected cs \<or> anyIndeterminate cs"
      using c(1) by (auto simp: anySelected_def anyIndeterminate_def)
    then show ?thesis
      unfolding s by (auto simp: branchState_def)
  qed
qed

lemma branch_selected_iff:
  assumes "wellFormed b" and "reconciled P vis provided sel ex b" and "\<not> isLeaf (raw b)"
  shows "isSelected (getNodeState b) =
         ((\<forall>l \<in> set (descendantLeaves b). isSelected (getNodeState l)) \<and>
          (\<forall>d \<in> set (descendants b). isIndeterminate (getNodeState d) \<noteq> Some True))"
proof -
  obtain r rn s cs where b: "b = StatefulNode r rn s cs"
    by (cases b)
  have s: "s = branchState P provided ex (getNodeId P rn) cs"
    using assms(2,3) b by simp
  have kids: "(isSelected (getNodeState c) \<and> isIndeterminate (getNodeState c) \<noteq> Some True) =
         ((\<forall>l \<in> set (nodes c). isLeaf (raw l) \<longrightarrow> isSelected (getNodeState l)) \<and>
          (\<forall>d \<in> set (nodes c). isIndeterminate (getNodeState d) \<noteq> Some True))"
    if "c \<in> set cs" for c
    using subtree_selected [of c P vis provided sel ex] assms(1,2) b that by simp
  have "isSelected s =
      (\<forall>c \<in> set cs. isSelected (getNodeState c) \<and> isIndeterminate (getNodeState c) \<noteq> Some True)"
    unfolding s by (auto simp: branchState_def anyIndeterminate_def anyUnselected_def)
  then show ?thesis
    using kids b by (auto simp: descendants_def descendantLeaves_def)
qed

lemma branch_indeterminate_iff:
  assumes "wellFormed b" and "reconciled P vis provided sel ex b" and "\<not> isLeaf (raw b)"
  shows "(isIndeterminate (getNodeState b) = Some True) =
         (\<not> isSelected (getNodeState b) \<and>
          ((\<exists>l \<in> set (descendantLeaves b). isSelected (getNodeState l)) \<or>
           anyIndeterminate (getStatefulChildren b)))"
proof -
  obtain r rn s cs where b: "b = StatefulNode r rn s cs"
    by (cases b)
  have s: "s = branchState P provided ex (getNodeId P rn) cs"
    using assms(2,3) b by simp
  have kid: "wellFormed c" "reconciled P vis provided sel ex c" if "c \<in> set cs" for c
    using assms(1,2) b that by auto
  have up: "anySelected cs \<or> anyIndeterminate cs"
    if "\<exists>l \<in> set (descendantLeaves b). isSelected (getNodeState l)"
  proof -
    from that obtain l c where "c \<in> set cs" "l \<in> set (nodes c)" "isLeaf (raw l)"
        "isSelected (getNodeState l)"
      using b by (auto simp: descendants_def descendantLeaves_def)
    then have "isSelected (getNodeState c) \<or> isIndeterminate (getNodeState c) = Some True"
      using selected_leaf_shows [OF kid] by blast
    then show ?thesis
      using \<open>c \<in> set cs\<close> by (auto simp: anySelected_def anyIndeterminate_def)
  qed
  have down: "\<exists>l \<in> set (descendantLeaves b). isSelected (getNodeState l)"
    if "anySelected cs"
  proof -
    from that obtain c where c: "c \<in> set cs" "isSelected (getNodeState c)"
      by (auto simp: anySelected_def)
    then obtain l where "l \<in> set (nodes c)" "isLeaf (raw l)" "isSelected (getNodeState l)"
      using selected_has_leaf [OF kid] by blast
    then show ?thesis
      using c(1) b by (auto simp: descendants_def descendantLeaves_def)
  qed
  have "(isIndeterminate s = Some True) =
      (\<not> isSelected s \<and> (anyIndeterminate cs \<or> anySelected cs))"
    unfolding s by (auto simp: branchState_def)
  then show ?thesis
    using up down b by auto
qed

lemma exampleBranchA_both:
  "exampleBranchA [''leaf1'', ''leaf2''] =
     StatefulNode 8 (Node ''A'' [Node ''leaf1'' [], Node ''leaf2'' []])
       (branchSt True True False False)
       [StatefulNode 6 (Node ''leaf1'' []) (leafState True True) [],
        StatefulNode 7 (Node ''leaf2'' []) (leafState True True) []]"
  by (simp add: exampleBranchA_def exampleStatefulTree_val exampleRuntime_val
      applyPropsToStatefulTree_def mapFunction_def exampleProps_def exampleTree_def
      isLeaf_def leafState_def branchSt_def new_Set_def Set_add_def Set_has_def Array_from_def
      replaceNode_def isActiveSearch_def isFiltered_def Let_def)

lemma exampleBranchA_one:
  "exampleBranchA [''leaf1''] =
     StatefulNode 7 (Node ''A'' [Node ''leaf1'' [], Node ''leaf2'' []])
       (branchSt False True True True)
       [StatefulNode 6 (Node ''leaf1'' []) (leafState True True) [],
        StatefulNode 1 (Node ''leaf2'' []) (leafState False True) []]"
  by (simp add: exampleBranchA_def exampleStatefulTree_val exampleRuntime_val
      applyPropsToStatefulTree_def mapFunction_def exampleProps_def exampleTree_def
      isLeaf_def leafState_def branchSt_def new_Set_def Set_add_def Set_has_def Array_from_def
      replaceNode_def isActiveSearch_def isFiltered_def Let_def)

lemma exampleBranchA_none:
  "exampleBranchA [] =
     StatefulNode 2 (Node ''A'' [Node ''leaf1'' [], Node ''leaf2'' []])
       (branchSt False True False False)
       [StatefulNode 0 (Node ''leaf1'' []) (leafState False True) [],
        StatefulNode 1 (Node ''leaf2'' []) (leafState False True) []]"
  by (simp add: exampleBranchA_def exampleStatefulTree_val exampleRuntime_val
      applyPropsToStatefulTree_def mapFunction_def exampleProps_def exampleTree_def
      isLeaf_def leafState_def branchSt_def new_Set_def Set_add_def Set_has_def Array_from_def
      replaceNode_def isActiveSearch_def isFiltered_def Let_def)

section \<open>The visibility walk\<close>

lemma nodeAt_leaf: "nodeAt (Node a []) p = Some l \<longleftrightarrow> p = [] \<and> l = Node a []"
  by (cases p) auto

lemma shown_leaf:
  "shown P ts fs pm (Node a []) x =
     (getNodeId P (Node a []) = x \<and> (pm \<or> searchPredicate P (Node a []) ts) \<and>
      (filteredList P = None \<or> x \<in> set fs))"
  by (auto simp: shown_def nodeAt_leaf isLeaf_def)

lemma shown_branch:
  assumes "ks \<noteq> []"
  shows "shown P ts fs pm (Node a ks) x =
     (\<exists>k \<in> set ks. shown P ts fs (pm \<or> searchPredicate P (Node a ks) ts) k x)"
proof
  assume "shown P ts fs pm (Node a ks) x"
  then obtain p l where pl: "nodeAt (Node a ks) p = Some l" "isLeaf l" "getNodeId P l = x"
      "pm \<or> matchesOnPath (\<lambda>m. searchPredicate P m ts) (Node a ks) p"
      "filteredList P = None \<or> x \<in> set fs"
    by (auto simp: shown_def)
  have "p \<noteq> []"
    using pl(1,2) assms by (auto simp: isLeaf_def)
  then obtain i p' where p: "p = i # p'"
    by (cases p) auto
  then have i: "i < length ks" "nodeAt (ks ! i) p' = Some l"
    using pl(1) by (auto split: if_splits)
  have "(pm \<or> searchPredicate P (Node a ks) ts) \<or>
      matchesOnPath (\<lambda>m. searchPredicate P m ts) (ks ! i) p'"
    using pl(4) p by auto
  then have "shown P ts fs (pm \<or> searchPredicate P (Node a ks) ts) (ks ! i) x"
    using i(2) pl(2,3,5) unfolding shown_def by blast
  then show "\<exists>k \<in> set ks. shown P ts fs (pm \<or> searchPredicate P (Node a ks) ts) k x"
    using i(1) by auto
next
  assume "\<exists>k \<in> set ks. shown P ts fs (pm \<or> searchPredicate P (Node a ks) ts) k x"
  then obtain k where k: "k \<in> set ks"
      "shown P ts fs (pm \<or> searchPredicate P (Node a ks) ts) k x"
    by blast
  from k(1) obtain i where i: "i < length ks" and ki: "k = ks ! i"
    by (auto simp: in_set_conv_nth)
  from k(2) obtain p l where pl: "nodeAt (ks ! i) p = Some l" "isLeaf l"
      "getNodeId P l = x"
      "(pm \<or> searchPredicate P (Node a ks) ts) \<or>
       matchesOnPath (\<lambda>m. searchPredicate P m ts) (ks ! i) p"
      "filteredList P = None \<or> x \<in> set fs"
    unfolding shown_def ki by blast
  have "nodeAt (Node a ks) (i # p) = Some l"
    using i pl(1) by simp
  moreover have "pm \<or> matchesOnPath (\<lambda>m. searchPredicate P m ts) (Node a ks) (i # p)"
    using i pl(4) by auto
  ultimately show "shown P ts fs pm (Node a ks) x"
    using pl(2,3,5) unfolding shown_def by blast
qed

lemma addVisibleLeaves_shown:
  "x \<in> set (addVisibleLeaves P ts fs n pm acc) \<longleftrightarrow> x \<in> set acc \<or> shown P ts fs pm n x"
  and forEachChild_shown:
  "x \<in> set (forEachChild P ts fs ks nm acc) \<longleftrightarrow>
     x \<in> set acc \<or> (\<exists>k \<in> set ks. shown P ts fs nm k x)"
proof (induction P ts fs n pm acc and P ts fs ks nm acc
    rule: addVisibleLeaves_forEachChild.induct)
  case (1 P searchTerms filteredSet a ks parentMatches visibleLeaves)
  show ?case
  proof (cases "ks = []")
    case True
    then show ?thesis
      by (auto simp: shown_leaf Let_def set_Set_add Set_has_def)
  next
    case False
    then show ?thesis
      using 1 by (simp add: shown_branch Let_def)
  qed
next
  case (2 P searchTerms filteredSet nodeMatches visibleLeaves)
  then show ?case by simp
next
  case (3 P searchTerms filteredSet k ks nodeMatches visibleLeaves)
  then show ?case by auto
qed

lemma createIsLeafVisible_walk:
  assumes "isActiveSearch P \<or> filteredList P \<noteq> None"
  shows "createIsLeafVisible parse P x =
           shown P (parse (searchTerm P))
             (new_Set (case filteredList P of Some l \<Rightarrow> l | None \<Rightarrow> [])) False (tree P) x"
  using assms by (auto simp: createIsLeafVisible_def Let_def Set_has_def addVisibleLeaves_shown)


lemma nodeAt_append:
  "nodeAt n (q @ p) = (case nodeAt n q of Some b \<Rightarrow> nodeAt b p | None \<Rightarrow> None)"
  by (induction q arbitrary: n) auto

lemma matchesOnPath_below:
  "nodeAt n q = Some b \<Longrightarrow> m b \<Longrightarrow> matchesOnPath m n (q @ p)"
proof (induction q arbitrary: n)
  case Nil
  then show ?case by (cases p) auto
next
  case (Cons i q)
  then show ?case by (auto split: if_splits)
qed

lemma nodeAt_in_getLeaves: "nodeAt n p = Some l \<Longrightarrow> isLeaf l \<Longrightarrow> l \<in> set (getLeaves n)"
proof (induction p arbitrary: n)
  case Nil
  then show ?case by (cases n) (auto simp: isLeaf_def)
next
  case (Cons i p)
  obtain a ks where n: "n = Node a ks"
    by (cases n)
  have i: "i < length ks" "nodeAt (ks ! i) p = Some l"
    using Cons.prems(1) n by (auto split: if_splits)
  then have "l \<in> set (getLeaves (ks ! i))"
    using Cons.IH Cons.prems(2) by blast
  then show ?case
    using i(1) n by auto
qed

lemma distinct_concat_disjoint:
  "distinct (concat xss) \<Longrightarrow> i < j \<Longrightarrow> j < length xss \<Longrightarrow> set (xss ! i) \<inter> set (xss ! j) = {}"
proof (induction xss arbitrary: i j)
  case Nil
  then show ?case by simp
next
  case (Cons xs xss)
  show ?case
  proof (cases i)
    case 0
    then obtain j' where j: "j = Suc j'" "j' < length xss"
      using Cons.prems(2,3) by (cases j) auto
    then have "xss ! j' \<in> set xss"
      by simp
    then have "set xs \<inter> set (xss ! j') = {}"
      using Cons.prems(1) by auto
    then show ?thesis
      using 0 j by simp
  next
    case (Suc i')
    then obtain j' where "j = Suc j'" using Cons.prems(2) by (cases j) auto
    then show ?thesis
      using Cons.IH [of i' j'] Cons.prems Suc by auto
  qed
qed

lemma distinct_concat_nth:
  "distinct (concat xss) \<Longrightarrow> i < length xss \<Longrightarrow> distinct (xss ! i)"
  by (induction xss arbitrary: i) (auto simp: nth_Cons split: nat.splits)

lemma leaf_path_unique:
  assumes "distinct (map f (getLeaves n))"
    and "nodeAt n p = Some l" and "isLeaf l" and "nodeAt n q = Some l'" and "isLeaf l'"
    and "f l = f l'"
  shows "p = q"
  using assms
proof (induction n arbitrary: p q)
  case (Node a ks)
  show ?case
  proof (cases "ks = []")
    case True
    then show ?thesis
      using Node.prems(2,4) by (simp add: nodeAt_leaf)
  next
    case False
    have "p \<noteq> []" "q \<noteq> []"
      using Node.prems(2-5) False by (auto simp: isLeaf_def)
    then obtain i p' j q' where p: "p = i # p'" and q: "q = j # q'"
      by (cases p; cases q) auto
    have i: "i < length ks" "nodeAt (ks ! i) p' = Some l"
      using Node.prems(2) p by (auto split: if_splits)
    have j: "j < length ks" "nodeAt (ks ! j) q' = Some l'"
      using Node.prems(4) q by (auto split: if_splits)
    let ?xss = "map (\<lambda>k. map f (getLeaves k)) ks"
    have d: "distinct (concat ?xss)"
      using Node.prems(1) False by (simp add: map_concat comp_def)
    have li: "f l \<in> set (?xss ! i)"
      using nodeAt_in_getLeaves [OF i(2) Node.prems(3)] i(1) by simp
    have lj: "f l \<in> set (?xss ! j)"
      using nodeAt_in_getLeaves [OF j(2) Node.prems(5)] j(1) Node.prems(6) by simp
    have "i = j"
    proof (rule ccontr)
      assume "i \<noteq> j"
      then consider "i < j" | "j < i" by linarith
      then show False
      proof cases
        case 1
        then show ?thesis
          using distinct_concat_disjoint [OF d 1] j(1) li lj by auto
      next
        case 2
        then show ?thesis
          using distinct_concat_disjoint [OF d 2] i(1) li lj by auto
      qed
    qed
    moreover have "distinct (map f (getLeaves (ks ! i)))"
      using distinct_concat_nth [OF d, of i] i(1) by simp
    ultimately have "p' = q'"
      using Node.IH [of "ks ! i" p' q'] i j Node.prems(3,5,6) by auto
    then show ?thesis
      using p q \<open>i = j\<close> by simp
  qed
qed

lemma searchProps_A_visible:
  "createIsLeafVisible oneTerm (searchProps ''A'') ''leaf1''"
  "createIsLeafVisible oneTerm (searchProps ''A'') ''leaf2''"
  "\<not> createIsLeafVisible oneTerm (searchProps ''A'') ''leaf3''"
  by (simp_all add: createIsLeafVisible_def searchProps_def exampleProps_def exampleTree_def
      oneTerm_def isActiveSearch_def isFiltered_def Let_def Set_add_def Set_has_def new_Set_def)

section \<open>Toggling one leaf\<close>

lemma statefulAt_raw:
  "wellFormed n \<Longrightarrow> statefulAt n q = Some m \<Longrightarrow> nodeAt (raw n) q = Some (raw m)"
proof (induction q arbitrary: n)
  case Nil
  then show ?case by simp
next
  case (Cons i q)
  obtain r rn s cs where n: "n = StatefulNode r rn s cs"
    by (cases n)
  have i: "i < length cs" "statefulAt (cs ! i) q = Some m"
    using Cons.prems(2) n by (auto split: if_splits)
  have wf: "map raw cs = getNodeChildren rn" "wellFormed (cs ! i)"
    using Cons.prems(1) n i(1) by auto
  have "length (getNodeChildren rn) = length cs" "getNodeChildren rn ! i = raw (cs ! i)"
    using i(1) by (simp_all add: wf(1) [symmetric])
  then show ?case
    using Cons.IH [OF wf(2) i(2)] i(1) n by simp
qed

lemma statefulAt_ref: "refsBelow k n \<Longrightarrow> statefulAt n q = Some m \<Longrightarrow> ref m < k"
proof (induction q arbitrary: n)
  case Nil
  then show ?case by (simp add: refsBelow_ref)
next
  case (Cons i q)
  obtain r rn s cs where n: "n = StatefulNode r rn s cs"
    by (cases n)
  have i: "i < length cs" "statefulAt (cs ! i) q = Some m"
    using Cons.prems(2) n by (auto split: if_splits)
  have "refsBelow k (cs ! i)"
    using Cons.prems(1) n i(1) by auto
  then show ?case
    using Cons.IH i(2) by blast
qed

lemma toggle_off_path:
  assumes "wellFormed n" and "reconciled P vis provided sel ex n"
    and "\<forall>x. (x \<in> set sel') = ((x \<in> set sel) \<noteq> (x = l))"
    and "\<forall>q m. statefulAt n q = Some m \<and> isLeaf (raw m) \<longrightarrow> getNodeId P (raw m) \<noteq> l"
  shows "reconciled P vis provided sel' ex n"
  using assms
proof (induction n)
  case (StatefulNode r rn s cs)
  have kids: "reconciled P vis provided sel' ex c" if c: "c \<in> set cs" for c
  proof -
    from c obtain i where i: "i < length cs" "cs ! i = c"
      unfolding in_set_conv_nth by blast
    have "\<forall>q m. statefulAt c q = Some m \<and> isLeaf (raw m) \<longrightarrow> getNodeId P (raw m) \<noteq> l"
    proof (intro allI impI)
      fix q m
      assume "statefulAt c q = Some m \<and> isLeaf (raw m)"
      then have "statefulAt (StatefulNode r rn s cs) (i # q) = Some m \<and> isLeaf (raw m)"
        using i by simp
      then show "getNodeId P (raw m) \<noteq> l"
        using StatefulNode.prems(4) by blast
    qed
    then show ?thesis
      using StatefulNode.IH [OF c] StatefulNode.prems(1-3) c by auto
  qed
  show ?case
  proof (cases "isLeaf rn")
    case True
    have "getNodeId P rn \<noteq> l"
      using StatefulNode.prems(4) [rule_format, of "[]" "StatefulNode r rn s cs"] True by simp
    then show ?thesis
      using True StatefulNode.prems(2,3) kids by simp
  next
    case False
    then show ?thesis
      using StatefulNode.prems(2) kids by simp
  qed
qed

lemma mapChildren_one_changed:
  assumes "i < length cs"
    and "\<And>j st. j < length cs \<Longrightarrow> j \<noteq> i \<Longrightarrow>
           \<exists>st'. mapStructure f (cs ! j) st = (cs ! j, st') \<and> nextRef st' = nextRef st \<and>
                 console st' = console st"
    and "mapChildren f cs st = (cs', st')"
  shows "\<exists>sti ci sti'. nextRef sti = nextRef st \<and> mapStructure f (cs ! i) sti = (ci, sti') \<and>
           cs' = cs[i := ci] \<and> nextRef st' = nextRef sti'"
  using assms
proof (induction cs arbitrary: i st cs' st')
  case Nil
  then show ?case by simp
next
  case (Cons c cs)
  obtain c1 st1 where c1: "mapStructure f c st = (c1, st1)"
    by fastforce
  obtain cs1 st2 where cs1: "mapChildren f cs st1 = (cs1, st2)"
    by fastforce
  from Cons.prems(3) c1 cs1 have res: "cs' = c1 # cs1" "st' = st2" by auto
  show ?case
  proof (cases i)
    case 0
    have "\<exists>st'. mapStructure f d st = (d, st') \<and> nextRef st' = nextRef st \<and>
        console st' = console st" if "d \<in> set cs" for d st
    proof -
      from that obtain j where "j < length cs" "cs ! j = d"
        unfolding in_set_conv_nth by blast
      then show ?thesis
        using Cons.prems(2) [of "Suc j" st] 0 by auto
    qed
    then obtain st2' where "mapChildren f cs st1 = (cs, st2')" "nextRef st2' = nextRef st1"
      using mapChildren_fixed [of cs f st1] by blast
    then have "cs1 = cs" "nextRef st2 = nextRef st1"
      using cs1 by auto
    then show ?thesis
      using 0 c1 res by auto
  next
    case (Suc i')
    have hd: "c1 = c" "nextRef st1 = nextRef st"
      using Cons.prems(2) [of 0 st] Suc c1 by auto
    have "\<exists>sti ci sti'. nextRef sti = nextRef st1 \<and> mapStructure f (cs ! i') sti = (ci, sti') \<and>
           cs1 = cs[i' := ci] \<and> nextRef st2 = nextRef sti'"
    proof (rule Cons.IH [OF _ _ cs1])
      show "i' < length cs" using Cons.prems(1) Suc by simp
      show "\<exists>st'. mapStructure f (cs ! j) st = (cs ! j, st') \<and> nextRef st' = nextRef st \<and>
          console st' = console st" if "j < length cs" "j \<noteq> i'" for j st
        using Cons.prems(2) [of "Suc j" st] that Suc by simp
    qed
    then show ?thesis
      using Suc hd res by auto
  qed
qed


lemma toggle_on_path:
  assumes "wellFormed n" and "reconciled P vis provided sel ex n"
    and "refsBelow (nextRef st) n" and "isSelectable P"
    and "\<forall>x. (x \<in> set sel') = ((x \<in> set sel) \<noteq> (x = l))"
    and "statefulAt n pL = Some L" and "isLeaf (raw L)" and "getNodeId P (raw L) = l"
    and "\<forall>q m. statefulAt n q = Some m \<and> isLeaf (raw m) \<and> getNodeId P (raw m) = l \<longrightarrow> q = pL"
    and "mapStructure (mapFunction P vis provided sel' ex) n st = (n', st')"
  shows "nextRef st \<le> ref n' \<and>
         (\<forall>q m. statefulAt n q = Some m \<longrightarrow>
            (\<exists>m'. statefulAt n' q = Some m' \<and>
               (if prefix q pL then nextRef st \<le> ref m' else m' = m)))"
  using assms
proof (induction n arbitrary: pL st n' st')
  case (StatefulNode r rn s cs)
  let ?F = "mapFunction P vis provided sel' ex"
  let ?n = "StatefulNode r rn s cs"
  note flip = StatefulNode.prems(5)
  have wfc: "map raw cs = getNodeChildren rn" "\<forall>c \<in> set cs. wellFormed c"
    using StatefulNode.prems(1) by auto
  have belowc: "\<forall>c \<in> set cs. refsBelow (nextRef st) c"
    using StatefulNode.prems(3) by auto
  obtain cs1 st1 where cs1: "mapChildren ?F cs st = (cs1, st1)"
    by fastforce
  have res: "?F ?n cs1 st1 = (n', st')"
    using StatefulNode.prems(10) cs1 by simp
  show ?case
  proof (cases pL)
    case Nil
    then have L: "L = ?n" "isLeaf rn" "getNodeId P rn = l"
      using StatefulNode.prems(6-8) by auto
    then have "cs = []"
      using wfc(1) by (simp add: isLeaf_def)
    then have e: "cs1 = []" "st1 = st"
      using cs1 by auto
    have "(isSelectable P \<and> l \<in> set sel') \<noteq> isSelected s"
      using StatefulNode.prems(2,4) L flip by simp
    then have n': "n' = StatefulNode (nextRef st) rn
        (s\<lparr>isSelected := (isSelectable P \<and> l \<in> set sel'), isVisible := vis l\<rparr>) []"
      using res e L by (simp add: mapFunction_leaf replaceNode_def)
    have "\<exists>m'. statefulAt n' q = Some m' \<and>
        (if prefix q pL then nextRef st \<le> ref m' else m' = m)"
      if "statefulAt ?n q = Some m" for q m
    proof -
      have "q = []"
        using that \<open>cs = []\<close> by (cases q) auto
      then show ?thesis
        using n' Nil by simp
    qed
    then show ?thesis
      using n' by simp
  next
    case (Cons i p')
    have i: "i < length cs" "statefulAt (cs ! i) p' = Some L"
      using StatefulNode.prems(6) Cons by (auto split: if_splits)
    have branch: "\<not> isLeaf rn"
      using i(1) wfc(1) by (auto simp: isLeaf_def)
    have kid: "wellFormed c" "reconciled P vis provided sel ex c" "refsBelow (nextRef st) c"
      if "c \<in> set cs" for c
      using that wfc(2) belowc StatefulNode.prems(2) by auto
    have others: "\<exists>st'. mapStructure ?F (cs ! j) st = (cs ! j, st') \<and> nextRef st' = nextRef st \<and>
        console st' = console st" if j: "j < length cs" "j \<noteq> i" for j st
    proof -
      have "\<forall>q m. statefulAt (cs ! j) q = Some m \<and> isLeaf (raw m) \<longrightarrow> getNodeId P (raw m) \<noteq> l"
      proof (intro allI impI notI)
        fix q m
        assume a: "statefulAt (cs ! j) q = Some m \<and> isLeaf (raw m)" and b: "getNodeId P (raw m) = l"
        have "statefulAt ?n (j # q) = Some m"
          using a j(1) by simp
        then have "j # q = pL"
          using StatefulNode.prems(9) a b by blast
        then show False
          using Cons j(2) by simp
      qed
      then have "reconciled P vis provided sel' ex (cs ! j)"
        using toggle_off_path [OF kid(1,2) flip] j(1) by simp
      then show ?thesis
        using mapStructure_fixed [OF kid(1)] j(1) by simp
    qed
    obtain sti ci sti' where one: "nextRef sti = nextRef st"
        "mapStructure ?F (cs ! i) sti = (ci, sti')" "cs1 = cs[i := ci]" "nextRef st1 = nextRef sti'"
      using mapChildren_one_changed [OF i(1) others cs1] by blast
    have only: "\<forall>q m. statefulAt (cs ! i) q = Some m \<and> isLeaf (raw m) \<and> getNodeId P (raw m) = l
        \<longrightarrow> q = p'"
    proof (intro allI impI)
      fix q m
      assume a: "statefulAt (cs ! i) q = Some m \<and> isLeaf (raw m) \<and> getNodeId P (raw m) = l"
      then have "statefulAt ?n (i # q) = Some m"
        using i(1) by simp
      then have "i # q = pL"
        using StatefulNode.prems(9) a by blast
      then show "q = p'"
        using Cons by simp
    qed
    have ci_in: "cs ! i \<in> set cs"
      using i(1) by simp
    have below_i: "refsBelow (nextRef sti) (cs ! i)"
      using kid(3) [OF ci_in] one(1) by simp
    have IH: "nextRef sti \<le> ref ci \<and>
         (\<forall>q m. statefulAt (cs ! i) q = Some m \<longrightarrow>
            (\<exists>m'. statefulAt ci q = Some m' \<and>
               (if prefix q p' then nextRef sti \<le> ref m' else m' = m)))"
      by (rule StatefulNode.IH [OF ci_in kid(1,2) [OF ci_in] below_i StatefulNode.prems(4) flip
            i(2) StatefulNode.prems(7,8) only one(2)])
    have mono: "nextRef sti \<le> nextRef sti'"
      using mapStructure_reconciles [OF kid(1) [OF ci_in] below_i one(2)] by simp
    have "ref (cs ! i) < nextRef st"
      using kid(3) [OF ci_in] by (rule refsBelow_ref)
    then have differs: "ref (cs1 ! i) \<noteq> ref (cs ! i)"
      using IH one(1,3) i(1) by simp
    have changed: "map ref cs1 \<noteq> map ref cs"
    proof
      assume "map ref cs1 = map ref cs"
      then have "map ref cs1 ! i = map ref cs ! i"
        by simp
      then show False
        using differs i(1) one(3) by simp
    qed
    have len: "length cs1 = length cs"
      using one(3) by simp
    let ?new = "branchState P provided ex (getNodeId P rn) cs1"
    let ?st2 = "if \<not> provided \<and> isExpanded ?new = Some True
                then st1\<lparr>generatedExpandedList :=
                          Set_add (getNodeId P rn) (generatedExpandedList st1)\<rparr>
                else st1"
    have "?F ?n cs1 st1 =
        (let new = branchState P provided ex (getNodeId P (raw ?n)) cs1;
             st1' = (if \<not> provided \<and> isExpanded new = Some True
                 then st1\<lparr>generatedExpandedList :=
                           Set_add (getNodeId P (raw ?n)) (generatedExpandedList st1)\<rparr>
                 else st1)
         in if map ref cs1 \<noteq> map ref (getStatefulChildren ?n) \<or> getNodeState ?n \<noteq> new
            then replaceNode ?n cs1 new st1' else (?n, st1'))"
      by (rule mapFunction_branch) (use branch len in simp_all)
    then have "replaceNode ?n cs1 ?new ?st2 = (n', st')"
      using res changed unfolding Let_def by (simp only: snode.sel simp_thms if_True)
    then have n': "n' = StatefulNode (nextRef st1) rn ?new cs1"
      by (auto simp: replaceNode_def)
    have fresh: "nextRef st \<le> ref n'"
      using n' one(1,4) mono by simp
    have "\<exists>m'. statefulAt n' q = Some m' \<and>
        (if prefix q pL then nextRef st \<le> ref m' else m' = m)"
      if q: "statefulAt ?n q = Some m" for q m
    proof (cases q)
      case Nil
      then show ?thesis
        using fresh by simp
    next
      case (Cons j q')
      have j: "j < length cs" "statefulAt (cs ! j) q' = Some m"
        using q Cons by (auto split: if_splits)
      show ?thesis
      proof (cases "j = i")
        case True
        then obtain m' where "statefulAt ci q' = Some m'"
            "if prefix q' p' then nextRef sti \<le> ref m' else m' = m"
          using IH j(2) by blast
        then show ?thesis
          using True Cons \<open>pL = i # p'\<close> n' one(1,3) i(1) by (auto split: if_splits)
      next
        case False
        then show ?thesis
          using Cons \<open>pL = i # p'\<close> n' one(3) j by simp
      qed
    qed
    then show ?thesis
      using fresh by simp
  qed
qed


section \<open>The claims\<close>

text \<open>
  Claim C9. With multi-pick disabled and more than one id in the selected list, the engine
  keeps the first id only and writes one warning: the returned tree and expansion list, and
  the objects allocated, are those of a run whose selected list holds just that first id.
  Nothing fails: \<open>applyPropsToStatefulTree\<close> has a result for every input.
\<close>

theorem C9_single_pick_truncation:
  assumes "\<not> isMultiPick P" and "length (selectedList P) > 1"
  shows "fst (applyPropsToStatefulTree root P leafVisible stateExpandedList st) =
           fst (applyPropsToStatefulTree root (P\<lparr>selectedList := [hd (selectedList P)]\<rparr>)
                  leafVisible stateExpandedList st) \<and>
         nextRef (snd (applyPropsToStatefulTree root P leafVisible stateExpandedList st)) =
           nextRef (snd (applyPropsToStatefulTree root
                      (P\<lparr>selectedList := [hd (selectedList P)]\<rparr>)
                      leafVisible stateExpandedList st)) \<and>
         console (snd (applyPropsToStatefulTree root P leafVisible stateExpandedList st)) =
           console st @ [singlePickWarning] \<and>
         console (snd (applyPropsToStatefulTree root (P\<lparr>selectedList := [hd (selectedList P)]\<rparr>)
                    leafVisible stateExpandedList st)) = console st"
proof -
  let ?P1 = "P\<lparr>selectedList := [hd (selectedList P)]\<rparr>"
  let ?F = "engine P leafVisible stateExpandedList"
  let ?w = "console st @ [singlePickWarning]"
  obtain t st1 where run: "mapStructure ?F root (st\<lparr>generatedExpandedList := []\<rparr>) = (t, st1)"
    by fastforce
  have con: "console st1 = console st"
    using mapStructure_console_same [OF run [unfolded engine_def]] by simp
  have "mapStructure ?F root (st\<lparr>generatedExpandedList := []\<rparr>\<lparr>console := ?w\<rparr>) =
      (t, st1\<lparr>console := ?w\<rparr>)"
    unfolding engine_def
    by (simp only: mapStructure_console run [unfolded engine_def] prod.case)
  moreover have "st\<lparr>console := ?w\<rparr>\<lparr>generatedExpandedList := []\<rparr> =
      st\<lparr>generatedExpandedList := []\<rparr>\<lparr>console := ?w\<rparr>"
    by (cases st) simp
  ultimately have frame:
    "mapStructure ?F root (st\<lparr>console := ?w\<rparr>\<lparr>generatedExpandedList := []\<rparr>) =
      (t, st1\<lparr>console := ?w\<rparr>)"
    by (simp only:)
  have ex: "expandedListOf ?P1 stateExpandedList = expandedListOf P stateExpandedList"
    "expandedSetOf ?P1 stateExpandedList = expandedSetOf P stateExpandedList"
    by (simp_all add: expandedListOf_def expandedSetOf_def)
  have one: "applyPropsToStatefulTree root ?P1 leafVisible stateExpandedList st =
      (\<lparr>expandedList = (if expandedListOf P stateExpandedList \<noteq> None
           then expandedSetOf P stateExpandedList else generatedExpandedList st1),
        statefulTree = t\<rparr>, st1)"
    unfolding applyProps_unfold engine_single_pick [OF assms] ex
    using run by simp
  have many: "applyPropsToStatefulTree root P leafVisible stateExpandedList st =
      (\<lparr>expandedList = (if expandedListOf P stateExpandedList \<noteq> None
           then expandedSetOf P stateExpandedList else generatedExpandedList st1),
        statefulTree = t\<rparr>, st1\<lparr>console := ?w\<rparr>)"
    unfolding applyProps_unfold
    using frame assms by simp
  show ?thesis
    unfolding one many using con by simp
qed

theorem C9_witness:
  "\<not> isMultiPick (exampleProps\<lparr>isMultiPick := False, selectedList := [''leaf1'', ''leaf2'', ''leaf3'']\<rparr>) \<and>
   length (selectedList (exampleProps\<lparr>isMultiPick := False,
     selectedList := [''leaf1'', ''leaf2'', ''leaf3'']\<rparr>)) > 1 \<and>
   fst (applyPropsToStatefulTree exampleStatefulTree
          (exampleProps\<lparr>isMultiPick := False, selectedList := [''leaf1'', ''leaf2'', ''leaf3'']\<rparr>)
          (\<lambda>nodeId. True) None exampleRuntime) =
   fst (applyPropsToStatefulTree exampleStatefulTree
          (exampleProps\<lparr>isMultiPick := False, selectedList := [''leaf1'']\<rparr>)
          (\<lambda>nodeId. True) None exampleRuntime) \<and>
   console (snd (applyPropsToStatefulTree exampleStatefulTree
          (exampleProps\<lparr>isMultiPick := False, selectedList := [''leaf1'', ''leaf2'', ''leaf3'']\<rparr>)
          (\<lambda>nodeId. True) None exampleRuntime)) = [singlePickWarning]"
  using C9_single_pick_truncation
    [of "exampleProps\<lparr>isMultiPick := False, selectedList := [''leaf1'', ''leaf2'', ''leaf3'']\<rparr>"
      exampleStatefulTree "\<lambda>nodeId. True" None exampleRuntime]
  by (simp add: exampleProps_def exampleRuntime_val)

text \<open>
  Claim C10. In explicit mode the returned expansion list is the caller's list without its
  repeated ids, each id at its first position (\<open>remdups\<close> keeps last occurrences, hence
  the two reversals): the same set, never a repeated id, and a list with a repeated id
  comes back shorter.
\<close>

theorem C10_expanded_list_deduplicated:
  assumes "propsExpandedList P = Some el"
  shows "expandedList (fst (applyPropsToStatefulTree root P leafVisible stateExpandedList st)) =
           rev (remdups (rev el)) \<and>
         set (expandedList (fst (applyPropsToStatefulTree root P leafVisible stateExpandedList st))) =
           set el \<and>
         distinct (expandedList
           (fst (applyPropsToStatefulTree root P leafVisible stateExpandedList st))) \<and>
         expandedList (fst (applyPropsToStatefulTree root
           (P\<lparr>propsExpandedList := Some [''A'', ''B'', ''A'']\<rparr>) leafVisible stateExpandedList st)) =
           [''A'', ''B'']"
proof -
  have "expandedList (fst (applyPropsToStatefulTree root Q leafVisible stateExpandedList st)) =
      new_Set l" if "propsExpandedList Q = Some l" for Q :: "'a CheckboxTreeProps" and l
    unfolding applyProps_unfold using that
    by (simp add: expandedListOf_def expandedSetOf_def split: prod.splits)
  from this [of P el] this [of "P\<lparr>propsExpandedList := Some [''A'', ''B'', ''A'']\<rparr>"] assms
  show ?thesis
    by (simp add: new_Set_first_occurrence)
qed

theorem C10_witness:
  "propsExpandedList (exampleProps\<lparr>propsExpandedList := Some [''B'', ''A'', ''B'']\<rparr>) =
     Some [''B'', ''A'', ''B''] \<and>
   expandedList (fst (applyPropsToStatefulTree exampleStatefulTree
     (exampleProps\<lparr>propsExpandedList := Some [''B'', ''A'', ''B'']\<rparr>) (\<lambda>nodeId. True) None
     exampleRuntime)) = [''B'', ''A'']"
  using C10_expanded_list_deduplicated
    [of "exampleProps\<lparr>propsExpandedList := Some [''B'', ''A'', ''B'']\<rparr>" "[''B'', ''A'', ''B'']"
      exampleStatefulTree "\<lambda>nodeId. True" None exampleRuntime]
  by simp

text \<open>
  Claim C8. In the tree a run returns, the expansion flag of every branch is: a search is
  active and the branch is visible (it has a visible child), or else, with an expansion list
  in force, the branch's id is in that list, and without one, a child is indeterminate, or
  a child is selected and (single-pick, or a child is unselected). On the example tree
  with \<open>selectedList = [leaf1]\<close>, multi-pick and no expansion list, A is indeterminate and
  expanded and B is neither.
\<close>

theorem C8_expansion_rule:
  assumes "wellFormed root" and "refsBelow (nextRef st) root"
    and "applyPropsToStatefulTree root P leafVisible stateExpandedList st = (g, st')"
    and "b \<in> set (nodes (statefulTree g))" and "\<not> isLeaf (raw b)"
  shows "isExpanded (getNodeState b) =
           Some ((isActiveSearch P \<and> isVisible (getNodeState b)) \<or>
                 (case expandedListOf P stateExpandedList of
                    Some l \<Rightarrow> getNodeId P (raw b) \<in> set l
                  | None \<Rightarrow>
                      anyIndeterminate (getStatefulChildren b) \<or>
                      (anySelected (getStatefulChildren b) \<and>
                       (\<not> isMultiPick P \<or> anyUnselected (getStatefulChildren b))))) \<and>
         isVisible (getNodeState b) = anyVisible (getStatefulChildren b) \<and>
         map (\<lambda>c. (getNodeId exampleProps (raw c), isIndeterminate (getNodeState c),
                    isExpanded (getNodeState c)))
           (getStatefulChildren (statefulTree (fst
              (applyPropsToStatefulTree exampleStatefulTree exampleProps (\<lambda>nodeId. True) None
                 exampleRuntime)))) =
           [(''A'', Some True, Some True), (''B'', Some False, Some False)]"
proof -
  have "reconciled P leafVisible (expandedListOf P stateExpandedList \<noteq> None) (selectedSetOf P)
      (expandedSetOf P stateExpandedList) b"
    using applyProps_reconciled(1) [OF assms(1-3)] assms(4) by (rule nodes_reconciled)
  then have "getNodeState b =
      branchState P (expandedListOf P stateExpandedList \<noteq> None)
        (expandedSetOf P stateExpandedList) (getNodeId P (raw b)) (getStatefulChildren b)"
    using assms(5) by (rule reconciled_branch)
  then have "isExpanded (getNodeState b) =
           Some ((isActiveSearch P \<and> isVisible (getNodeState b)) \<or>
                 (case expandedListOf P stateExpandedList of
                    Some l \<Rightarrow> getNodeId P (raw b) \<in> set l
                  | None \<Rightarrow>
                      anyIndeterminate (getStatefulChildren b) \<or>
                      (anySelected (getStatefulChildren b) \<and>
                       (\<not> isMultiPick P \<or> anyUnselected (getStatefulChildren b)))))"
    and "isVisible (getNodeState b) = anyVisible (getStatefulChildren b)"
    by (simp_all add: branchState_def expandedSetOf_def set_new_Set split: option.splits)
  moreover have "map (\<lambda>c. (getNodeId exampleProps (raw c), isIndeterminate (getNodeState c),
                    isExpanded (getNodeState c)))
           (getStatefulChildren (statefulTree (fst
              (applyPropsToStatefulTree exampleStatefulTree exampleProps (\<lambda>nodeId. True) None
                 exampleRuntime)))) =
           [(''A'', Some True, Some True), (''B'', Some False, Some False)]"
    unfolding example_run by (simp add: exampleProps_def leafState_def branchSt_def)
  ultimately show ?thesis
    by simp
qed

theorem C8_witness:
  "wellFormed exampleStatefulTree \<and> refsBelow (nextRef exampleRuntime) exampleStatefulTree \<and>
   StatefulNode 7 (Node ''A'' [Node ''leaf1'' [], Node ''leaf2'' []])
     (branchSt False True True True)
     [StatefulNode 6 (Node ''leaf1'' []) (leafState True True) [],
      StatefulNode 1 (Node ''leaf2'' []) (leafState False True) []]
     \<in> set (nodes (statefulTree (fst (applyPropsToStatefulTree exampleStatefulTree exampleProps
         (\<lambda>nodeId. True) None exampleRuntime)))) \<and>
   \<not> isLeaf (Node ''A'' [Node ''leaf1'' [], Node ''leaf2'' []]) \<and>
   isExpanded (branchSt False True True True) = Some True"
proof -
  let ?g = "fst (applyPropsToStatefulTree exampleStatefulTree exampleProps (\<lambda>nodeId. True) None
                   exampleRuntime)"
  let ?b = "StatefulNode 7 (Node ''A'' [Node ''leaf1'' [], Node ''leaf2'' []])
              (branchSt False True True True)
              [StatefulNode 6 (Node ''leaf1'' []) (leafState True True) [],
               StatefulNode 1 (Node ''leaf2'' []) (leafState False True) []]"
  have run: "applyPropsToStatefulTree exampleStatefulTree exampleProps (\<lambda>nodeId. True) None
      exampleRuntime = (?g, snd (applyPropsToStatefulTree exampleStatefulTree exampleProps
        (\<lambda>nodeId. True) None exampleRuntime))"
    by simp
  have b: "?b \<in> set (nodes (statefulTree ?g))"
    by (simp add: example_run)
  have leaf: "\<not> isLeaf (raw ?b)"
    by (simp add: isLeaf_def)
  from C8_expansion_rule [OF example_wellFormed example_refsBelow run b leaf]
  show ?thesis
    using example_wellFormed example_refsBelow b
    by (simp add: isLeaf_def branchSt_def)
qed


text \<open>
  Claim C1. A caller's expansion list is authoritative, the empty list included: every
  branch of the returned tree is expanded iff its id is in the list or a search forces it
  open, nothing is added to the generated list, and the caller's set is what comes back.
  Only without a caller's list (and without the unused state list) is the list generated:
  the ids of the expanded branches, as the walk met them.
\<close>

theorem C1_caller_list_authoritative:
  assumes "wellFormed root" and "refsBelow (nextRef st) root"
    and "applyPropsToStatefulTree root P leafVisible stateExpandedList st = (g, st')"
  shows "(\<forall>el. propsExpandedList P = Some el \<longrightarrow>
            (\<forall>b \<in> set (nodes (statefulTree g)). \<not> isLeaf (raw b) \<longrightarrow>
               isExpanded (getNodeState b) =
                 Some ((isActiveSearch P \<and> isVisible (getNodeState b)) \<or>
                       getNodeId P (raw b) \<in> set el)) \<and>
            generatedExpandedList st' = [] \<and> expandedList g = new_Set el) \<and>
         (propsExpandedList P = Some [] \<longrightarrow>
            (\<forall>b \<in> set (nodes (statefulTree g)). \<not> isLeaf (raw b) \<longrightarrow>
               isExpanded (getNodeState b) =
                 Some (isActiveSearch P \<and> isVisible (getNodeState b))) \<and>
            expandedList g = []) \<and>
         (propsExpandedList P = None \<and> stateExpandedList = None \<longrightarrow>
            expandedList g = generatedExpandedList st' \<and>
            expandedList g = new_Set (expandedBranchIds P (statefulTree g)))"
proof -
  have explicit: "(\<forall>b \<in> set (nodes (statefulTree g)). \<not> isLeaf (raw b) \<longrightarrow>
               isExpanded (getNodeState b) =
                 Some ((isActiveSearch P \<and> isVisible (getNodeState b)) \<or>
                       getNodeId P (raw b) \<in> set el)) \<and>
            generatedExpandedList st' = [] \<and> expandedList g = new_Set el"
    if el: "propsExpandedList P = Some el" for el
  proof -
    have ex: "expandedListOf P stateExpandedList = Some el"
      using el by (simp add: expandedListOf_def)
    have "isExpanded (getNodeState b) =
        Some ((isActiveSearch P \<and> isVisible (getNodeState b)) \<or> getNodeId P (raw b) \<in> set el)"
      if "b \<in> set (nodes (statefulTree g))" "\<not> isLeaf (raw b)" for b
    proof -
      have "reconciled P leafVisible (expandedListOf P stateExpandedList \<noteq> None)
          (selectedSetOf P) (expandedSetOf P stateExpandedList) b"
        using applyProps_reconciled(1) [OF assms] that(1) by (rule nodes_reconciled)
      then have "getNodeState b =
          branchState P (expandedListOf P stateExpandedList \<noteq> None)
            (expandedSetOf P stateExpandedList) (getNodeId P (raw b)) (getStatefulChildren b)"
        using that(2) by (rule reconciled_branch)
      then show ?thesis
        using ex by (simp add: branchState_def expandedSetOf_def set_new_Set)
    qed
    moreover have "generatedExpandedList st' = []"
      using applyProps_generated [OF assms] ex by simp
    moreover have "expandedList g = new_Set el"
      using applyProps_run [OF assms(3)] ex by (auto simp: expandedSetOf_def)
    ultimately show ?thesis by blast
  qed
  have auto_mode: "expandedList g = generatedExpandedList st' \<and>
            expandedList g = new_Set (expandedBranchIds P (statefulTree g))"
    if "propsExpandedList P = None" "stateExpandedList = None"
  proof -
    have ex: "expandedListOf P stateExpandedList = None"
      using that by (simp add: expandedListOf_def)
    have "expandedList g = generatedExpandedList st'"
      using applyProps_run [OF assms(3)] ex by auto
    then show ?thesis
      using applyProps_generated [OF assms] ex by simp
  qed
  have empty: "new_Set [] = []"
    by (simp add: new_Set_def)
  have p1: "\<forall>el. propsExpandedList P = Some el \<longrightarrow>
            (\<forall>b \<in> set (nodes (statefulTree g)). \<not> isLeaf (raw b) \<longrightarrow>
               isExpanded (getNodeState b) =
                 Some ((isActiveSearch P \<and> isVisible (getNodeState b)) \<or>
                       getNodeId P (raw b) \<in> set el)) \<and>
            generatedExpandedList st' = [] \<and> expandedList g = new_Set el"
    using explicit by blast
  have p2: "propsExpandedList P = Some [] \<longrightarrow>
            (\<forall>b \<in> set (nodes (statefulTree g)). \<not> isLeaf (raw b) \<longrightarrow>
               isExpanded (getNodeState b) =
                 Some (isActiveSearch P \<and> isVisible (getNodeState b))) \<and>
            expandedList g = []"
    using explicit [of "[]"] empty by simp
  have p3: "propsExpandedList P = None \<and> stateExpandedList = None \<longrightarrow>
            expandedList g = generatedExpandedList st' \<and>
            expandedList g = new_Set (expandedBranchIds P (statefulTree g))"
    using auto_mode by blast
  show ?thesis
    by (intro conjI) (rule p1 p2 p3)+
qed

theorem C1_witness:
  "wellFormed exampleStatefulTree \<and> refsBelow (nextRef exampleRuntime) exampleStatefulTree \<and>
   propsExpandedList (exampleProps\<lparr>propsExpandedList := Some []\<rparr>) = Some [] \<and>
   expandedList (fst (applyPropsToStatefulTree exampleStatefulTree
     (exampleProps\<lparr>propsExpandedList := Some []\<rparr>) (\<lambda>nodeId. True) None exampleRuntime)) = [] \<and>
   generatedExpandedList (snd (applyPropsToStatefulTree exampleStatefulTree
     (exampleProps\<lparr>propsExpandedList := Some []\<rparr>) (\<lambda>nodeId. True) None exampleRuntime)) = []"
proof -
  let ?P = "exampleProps\<lparr>propsExpandedList := Some []\<rparr>"
  let ?r = "applyPropsToStatefulTree exampleStatefulTree ?P (\<lambda>nodeId. True) None exampleRuntime"
  have run: "?r = (fst ?r, snd ?r)"
    by simp
  from C1_caller_list_authoritative [OF example_wellFormed example_refsBelow run]
  show ?thesis
    using example_wellFormed example_refsBelow by (simp add: new_Set_def)
qed

text \<open>
  Claim C4. Applying the engine to the tree it returned, with the same inputs, returns that
  very tree (the same objects throughout), allocates no object and returns the same
  expansion list.
\<close>

theorem C4_idempotent:
  assumes "wellFormed root" and "refsBelow (nextRef st) root"
    and "applyPropsToStatefulTree root P leafVisible stateExpandedList st = (g1, st1)"
    and "applyPropsToStatefulTree (statefulTree g1) P leafVisible stateExpandedList st1 = (g2, st2)"
  shows "statefulTree g2 = statefulTree g1 \<and> nextRef st2 = nextRef st1 \<and>
         expandedList g2 = expandedList g1"
proof -
  note first = applyProps_reconciled [OF assms(1-3)]
  obtain st0 where st0: "nextRef st0 = nextRef st1"
      "mapStructure (engine P leafVisible stateExpandedList) (statefulTree g1) st0 =
         (statefulTree g2, st2)"
      "expandedList g2 = (if expandedListOf P stateExpandedList \<noteq> None
         then expandedSetOf P stateExpandedList else generatedExpandedList st2)"
    using applyProps_run [OF assms(4)] by blast
  obtain st' where fixed:
      "mapStructure (engine P leafVisible stateExpandedList) (statefulTree g1) st0 =
         (statefulTree g1, st')" "nextRef st' = nextRef st0"
    using mapStructure_fixed [OF first(2) first(1), of st0] by (auto simp: engine_def)
  have same: "statefulTree g2 = statefulTree g1" "nextRef st2 = nextRef st1"
    using st0 fixed by simp_all
  have "expandedList g1 = (if expandedListOf P stateExpandedList \<noteq> None
         then expandedSetOf P stateExpandedList else generatedExpandedList st1)"
    using applyProps_run [OF assms(3)] by blast
  moreover have "generatedExpandedList st2 = generatedExpandedList st1"
    using applyProps_generated [OF assms(1-3)]
      applyProps_generated [OF first(2) first(4) assms(4)] same(1) by simp
  ultimately show ?thesis
    using same st0(3) by simp
qed

theorem C4_witness:
  "wellFormed exampleStatefulTree \<and> refsBelow (nextRef exampleRuntime) exampleStatefulTree \<and>
   statefulTree (fst (applyPropsToStatefulTree
     (statefulTree (fst (applyPropsToStatefulTree exampleStatefulTree exampleProps
        (\<lambda>nodeId. True) None exampleRuntime)))
     exampleProps (\<lambda>nodeId. True) None
     (snd (applyPropsToStatefulTree exampleStatefulTree exampleProps
        (\<lambda>nodeId. True) None exampleRuntime)))) =
   statefulTree (fst (applyPropsToStatefulTree exampleStatefulTree exampleProps
        (\<lambda>nodeId. True) None exampleRuntime)) \<and>
   nextRef (snd (applyPropsToStatefulTree
     (statefulTree (fst (applyPropsToStatefulTree exampleStatefulTree exampleProps
        (\<lambda>nodeId. True) None exampleRuntime)))
     exampleProps (\<lambda>nodeId. True) None
     (snd (applyPropsToStatefulTree exampleStatefulTree exampleProps
        (\<lambda>nodeId. True) None exampleRuntime)))) = 9"
proof -
  let ?r1 = "applyPropsToStatefulTree exampleStatefulTree exampleProps (\<lambda>nodeId. True) None
               exampleRuntime"
  let ?r2 = "applyPropsToStatefulTree (statefulTree (fst ?r1)) exampleProps (\<lambda>nodeId. True) None
               (snd ?r1)"
  have run1: "?r1 = (fst ?r1, snd ?r1)" and run2: "?r2 = (fst ?r2, snd ?r2)"
    by simp_all
  from C4_idempotent [OF example_wellFormed example_refsBelow run1 run2]
  have "statefulTree (fst ?r2) = statefulTree (fst ?r1)" "nextRef (snd ?r2) = nextRef (snd ?r1)"
    by simp_all
  moreover have "nextRef (snd ?r1) = 9"
    by (simp add: example_run)
  ultimately show ?thesis
    using example_wellFormed example_refsBelow by simp
qed

text \<open>
  Claim C3. In the tree a run returns, a branch is selected iff every descendant leaf is
  selected and no descendant is indeterminate, and indeterminate iff it is not selected and
  a descendant leaf is selected or a child is indeterminate. Branch A of the example, with
  its leaves [selected, selected], is selected and not indeterminate; with
  [selected, unselected], not selected and indeterminate; with [unselected, unselected],
  neither.
\<close>

theorem C3_tri_state:
  assumes "wellFormed root" and "refsBelow (nextRef st) root"
    and "applyPropsToStatefulTree root P leafVisible stateExpandedList st = (g, st')"
    and "b \<in> set (nodes (statefulTree g))" and "\<not> isLeaf (raw b)"
  shows "isSelected (getNodeState b) =
           ((\<forall>l \<in> set (descendantLeaves b). isSelected (getNodeState l)) \<and>
            (\<forall>d \<in> set (descendants b). isIndeterminate (getNodeState d) \<noteq> Some True)) \<and>
         (isIndeterminate (getNodeState b) = Some True) =
           (\<not> isSelected (getNodeState b) \<and>
            ((\<exists>l \<in> set (descendantLeaves b). isSelected (getNodeState l)) \<or>
             (\<exists>c \<in> set (getStatefulChildren b). isIndeterminate (getNodeState c) = Some True))) \<and>
         (map (\<lambda>l. isSelected (getNodeState l)) (getStatefulChildren (exampleBranchA [''leaf1'', ''leaf2'']))
            = [True, True] \<and>
          isSelected (getNodeState (exampleBranchA [''leaf1'', ''leaf2''])) = True \<and>
          isIndeterminate (getNodeState (exampleBranchA [''leaf1'', ''leaf2''])) = Some False) \<and>
         (map (\<lambda>l. isSelected (getNodeState l)) (getStatefulChildren (exampleBranchA [''leaf1'']))
            = [True, False] \<and>
          isSelected (getNodeState (exampleBranchA [''leaf1''])) = False \<and>
          isIndeterminate (getNodeState (exampleBranchA [''leaf1''])) = Some True) \<and>
         (map (\<lambda>l. isSelected (getNodeState l)) (getStatefulChildren (exampleBranchA []))
            = [False, False] \<and>
          isSelected (getNodeState (exampleBranchA [])) = False \<and>
          isIndeterminate (getNodeState (exampleBranchA [])) = Some False)"
proof -
  note res = applyProps_reconciled [OF assms(1-3)]
  have wf: "wellFormed b"
    using res(2) assms(4) by (rule nodes_wellFormed)
  have rec: "reconciled P leafVisible (expandedListOf P stateExpandedList \<noteq> None) (selectedSetOf P)
      (expandedSetOf P stateExpandedList) b"
    using res(1) assms(4) by (rule nodes_reconciled)
  note branch_selected_iff [OF wf rec assms(5)]
    branch_indeterminate_iff [OF wf rec assms(5), unfolded anyIndeterminate_def]
  then show ?thesis
    unfolding exampleBranchA_both exampleBranchA_one exampleBranchA_none
    by (simp add: leafState_def branchSt_def)
qed

theorem C3_witness:
  "wellFormed exampleStatefulTree \<and> refsBelow (nextRef exampleRuntime) exampleStatefulTree \<and>
   exampleBranchA [''leaf1'']
     \<in> set (nodes (statefulTree (fst (applyPropsToStatefulTree exampleStatefulTree exampleProps
         (\<lambda>nodeId. True) None exampleRuntime)))) \<and>
   \<not> isLeaf (raw (exampleBranchA [''leaf1''])) \<and>
   \<not> isSelected (getNodeState (exampleBranchA [''leaf1''])) \<and>
   isIndeterminate (getNodeState (exampleBranchA [''leaf1''])) = Some True"
proof -
  let ?g = "fst (applyPropsToStatefulTree exampleStatefulTree exampleProps (\<lambda>nodeId. True) None
                   exampleRuntime)"
  have run: "applyPropsToStatefulTree exampleStatefulTree exampleProps (\<lambda>nodeId. True) None
      exampleRuntime = (?g, snd (applyPropsToStatefulTree exampleStatefulTree exampleProps
        (\<lambda>nodeId. True) None exampleRuntime))"
    by simp
  have b: "exampleBranchA [''leaf1''] \<in> set (nodes (statefulTree ?g))"
    by (simp add: example_run exampleBranchA_one)
  have leaf: "\<not> isLeaf (raw (exampleBranchA [''leaf1'']))"
    by (simp add: exampleBranchA_one isLeaf_def)
  from C3_tri_state [OF example_wellFormed example_refsBelow run b leaf]
  show ?thesis
    using example_wellFormed example_refsBelow b leaf
    by (simp add: exampleBranchA_one branchSt_def)
qed

text \<open>
  Claim C6. With \<open>filteredList = []\<close> the resolver answers false for every id: no leaf is
  visible. With \<open>filteredList\<close> unset and no active search it answers true for every id.
  With \<open>filteredList\<close> unset and an active search an id is visible exactly when a leaf
  carrying it has a match on its path (itself or an ancestor); with distinct leaf ids that
  is: a leaf is visible exactly when it or an ancestor matches.
\<close>

theorem C6_filtered_list:
  "(filteredList P = Some [] \<longrightarrow> \<not> createIsLeafVisible parse P x) \<and>
   (filteredList P = None \<and> \<not> isActiveSearch P \<longrightarrow> createIsLeafVisible parse P x) \<and>
   (filteredList P = None \<and> isActiveSearch P \<longrightarrow>
      createIsLeafVisible parse P x =
        (\<exists>p l. nodeAt (tree P) p = Some l \<and> isLeaf l \<and> getNodeId P l = x \<and>
           matchesOnPath (\<lambda>m. searchPredicate P m (parse (searchTerm P))) (tree P) p)) \<and>
   (filteredList P = None \<and> isActiveSearch P \<and>
    distinct (map (getNodeId P) (getLeaves (tree P))) \<and>
    nodeAt (tree P) p = Some l \<and> isLeaf l \<longrightarrow>
      createIsLeafVisible parse P (getNodeId P l) =
        matchesOnPath (\<lambda>m. searchPredicate P m (parse (searchTerm P))) (tree P) p)"
proof (intro conjI impI)
  assume "filteredList P = Some []"
  then show "\<not> createIsLeafVisible parse P x"
    by (simp add: createIsLeafVisible_walk shown_def new_Set_def)
next
  assume "filteredList P = None \<and> \<not> isActiveSearch P"
  then show "createIsLeafVisible parse P x"
    by (simp add: createIsLeafVisible_def)
next
  assume "filteredList P = None \<and> isActiveSearch P"
  then show "createIsLeafVisible parse P x =
        (\<exists>p l. nodeAt (tree P) p = Some l \<and> isLeaf l \<and> getNodeId P l = x \<and>
           matchesOnPath (\<lambda>m. searchPredicate P m (parse (searchTerm P))) (tree P) p)"
    by (simp add: createIsLeafVisible_walk shown_def)
next
  assume a: "filteredList P = None \<and> isActiveSearch P \<and>
    distinct (map (getNodeId P) (getLeaves (tree P))) \<and>
    nodeAt (tree P) p = Some l \<and> isLeaf l"
  let ?m = "\<lambda>m. searchPredicate P m (parse (searchTerm P))"
  have vis: "createIsLeafVisible parse P (getNodeId P l) =
        (\<exists>q l'. nodeAt (tree P) q = Some l' \<and> isLeaf l' \<and> getNodeId P l' = getNodeId P l \<and>
           matchesOnPath ?m (tree P) q)"
    using a by (simp add: createIsLeafVisible_walk shown_def)
  show "createIsLeafVisible parse P (getNodeId P l) = matchesOnPath ?m (tree P) p"
  proof
    assume "createIsLeafVisible parse P (getNodeId P l)"
    then obtain q l' where q: "nodeAt (tree P) q = Some l'" "isLeaf l'"
        "getNodeId P l' = getNodeId P l" "matchesOnPath ?m (tree P) q"
      using vis by blast
    have "p = q"
      using leaf_path_unique [of "getNodeId P" "tree P" p l q l'] a q(1-3) by simp
    then show "matchesOnPath ?m (tree P) p"
      using q(4) by simp
  next
    assume "matchesOnPath ?m (tree P) p"
    then show "createIsLeafVisible parse P (getNodeId P l)"
      using vis a by blast
  qed
qed

theorem C6_witness:
  "filteredList (searchProps ''A''\<lparr>filteredList := Some []\<rparr>) = Some [] \<and>
   \<not> createIsLeafVisible oneTerm (searchProps ''A''\<lparr>filteredList := Some []\<rparr>) ''leaf1'' \<and>
   filteredList exampleProps = None \<and> \<not> isActiveSearch exampleProps \<and>
   createIsLeafVisible oneTerm exampleProps ''leaf3'' \<and>
   filteredList (searchProps ''A'') = None \<and> isActiveSearch (searchProps ''A'') \<and>
   distinct (map (getNodeId (searchProps ''A'')) (getLeaves (tree (searchProps ''A'')))) \<and>
   nodeAt (tree (searchProps ''A'')) [0, 1] = Some (Node ''leaf2'' []) \<and>
   isLeaf (Node ''leaf2'' []) \<and>
   createIsLeafVisible oneTerm (searchProps ''A'') ''leaf2''"
proof -
  have h1: "filteredList (searchProps ''A''\<lparr>filteredList := Some []\<rparr>) = Some []"
    by simp
  have h2: "filteredList exampleProps = None \<and> \<not> isActiveSearch exampleProps"
    by (simp add: exampleProps_def isActiveSearch_def)
  have h3: "filteredList (searchProps ''A'') = None \<and> isActiveSearch (searchProps ''A'') \<and>
      distinct (map (getNodeId (searchProps ''A'')) (getLeaves (tree (searchProps ''A'')))) \<and>
      nodeAt (tree (searchProps ''A'')) [0, 1] = Some (Node ''leaf2'' []) \<and>
      isLeaf (Node ''leaf2'' [])"
    by (simp add: searchProps_def exampleProps_def exampleTree_def isActiveSearch_def
        isFiltered_def isLeaf_def)
  have m: "matchesOnPath
      (\<lambda>m. searchPredicate (searchProps ''A'') m (oneTerm (searchTerm (searchProps ''A''))))
      (tree (searchProps ''A'')) [0, 1]"
    by (simp add: searchProps_def exampleProps_def exampleTree_def oneTerm_def)
  have g: "getNodeId (searchProps ''A'') (Node ''leaf2'' []) = ''leaf2''"
    by (simp add: searchProps_def exampleProps_def)
  have v1: "\<not> createIsLeafVisible oneTerm (searchProps ''A''\<lparr>filteredList := Some []\<rparr>) ''leaf1''"
    using C6_filtered_list [of "searchProps ''A''\<lparr>filteredList := Some []\<rparr>" oneTerm "''leaf1''"]
      h1 by blast
  have v2: "createIsLeafVisible oneTerm exampleProps ''leaf3''"
    using C6_filtered_list [of exampleProps oneTerm "''leaf3''"] h2 by blast
  have "createIsLeafVisible oneTerm (searchProps ''A'')
      (getNodeId (searchProps ''A'') (Node ''leaf2'' [])) =
    matchesOnPath
      (\<lambda>m. searchPredicate (searchProps ''A'') m (oneTerm (searchTerm (searchProps ''A''))))
      (tree (searchProps ''A'')) [0, 1]"
    using C6_filtered_list [of "searchProps ''A''" oneTerm "''leaf2''" "[0, 1]" "Node ''leaf2'' []"]
      h3 by blast
  then have v3: "createIsLeafVisible oneTerm (searchProps ''A'') ''leaf2''"
    using m unfolding g by blast
  show ?thesis
    using h1 h2 h3 v1 v2 v3 by blast
qed


text \<open>
  Claim C7. During an active search, every leaf below a node that satisfies the predicate
  is visible when the filtered list is unset or holds its id, whatever the predicate says
  of the leaf; an id outside a given filtered list is never visible; and, leaf ids being
  distinct, a leaf with no match on its own path is not visible, whatever its siblings
  match.
\<close>

theorem C7_matches_propagate_downward:
  assumes "isActiveSearch P"
  shows "(nodeAt (tree P) q = Some b \<and> searchPredicate P b (parse (searchTerm P)) \<and>
          nodeAt b p = Some l \<and> isLeaf l \<and>
          (case filteredList P of None \<Rightarrow> True | Some fl \<Rightarrow> getNodeId P l \<in> set fl) \<longrightarrow>
            createIsLeafVisible parse P (getNodeId P l)) \<and>
         (filteredList P = Some fl \<and> x \<notin> set fl \<longrightarrow> \<not> createIsLeafVisible parse P x) \<and>
         (distinct (map (getNodeId P) (getLeaves (tree P))) \<and>
          nodeAt (tree P) p' = Some s \<and> isLeaf s \<and>
          \<not> matchesOnPath (\<lambda>m. searchPredicate P m (parse (searchTerm P))) (tree P) p' \<longrightarrow>
            \<not> createIsLeafVisible parse P (getNodeId P s))"
proof (intro conjI impI)
  let ?m = "\<lambda>m. searchPredicate P m (parse (searchTerm P))"
  let ?fs = "new_Set (case filteredList P of Some l \<Rightarrow> l | None \<Rightarrow> [])"
  have vis: "createIsLeafVisible parse P y = shown P (parse (searchTerm P)) ?fs False (tree P) y"
    for y
    using assms by (simp add: createIsLeafVisible_walk)
  {
    assume a: "nodeAt (tree P) q = Some b \<and> searchPredicate P b (parse (searchTerm P)) \<and>
          nodeAt b p = Some l \<and> isLeaf l \<and>
          (case filteredList P of None \<Rightarrow> True | Some fl \<Rightarrow> getNodeId P l \<in> set fl)"
    have "nodeAt (tree P) (q @ p) = Some l"
      using a by (simp add: nodeAt_append)
    moreover have "matchesOnPath ?m (tree P) (q @ p)"
      using a by (auto intro: matchesOnPath_below)
    moreover have "filteredList P = None \<or> getNodeId P l \<in> set ?fs"
      using a by (auto simp: set_new_Set split: option.splits)
    ultimately show "createIsLeafVisible parse P (getNodeId P l)"
      using a unfolding vis shown_def by blast
  }
  {
    assume "filteredList P = Some fl \<and> x \<notin> set fl"
    then show "\<not> createIsLeafVisible parse P x"
      unfolding vis shown_def by (simp add: set_new_Set)
  }
  {
    assume a: "distinct (map (getNodeId P) (getLeaves (tree P))) \<and>
          nodeAt (tree P) p' = Some s \<and> isLeaf s \<and> \<not> matchesOnPath ?m (tree P) p'"
    show "\<not> createIsLeafVisible parse P (getNodeId P s)"
    proof
      assume "createIsLeafVisible parse P (getNodeId P s)"
      then obtain r l' where r: "nodeAt (tree P) r = Some l'" "isLeaf l'"
          "getNodeId P l' = getNodeId P s" "matchesOnPath ?m (tree P) r"
        unfolding vis shown_def by blast
      have "p' = r"
        using leaf_path_unique [of "getNodeId P" "tree P" p' s r l'] a r(1-3) by simp
      then show False
        using a r(4) by simp
    qed
  }
qed

theorem C7_witness:
  "isActiveSearch (searchProps ''A'') \<and>
   nodeAt (tree (searchProps ''A'')) [0] = Some (Node ''A'' [Node ''leaf1'' [], Node ''leaf2'' []]) \<and>
   searchPredicate (searchProps ''A'') (Node ''A'' [Node ''leaf1'' [], Node ''leaf2'' []])
     (oneTerm (searchTerm (searchProps ''A''))) \<and>
   nodeAt (Node ''A'' [Node ''leaf1'' [], Node ''leaf2'' []]) [0] = Some (Node ''leaf1'' []) \<and>
   isLeaf (Node ''leaf1'' []) \<and>
   \<not> searchPredicate (searchProps ''A'') (Node ''leaf1'' [])
     (oneTerm (searchTerm (searchProps ''A''))) \<and>
   createIsLeafVisible oneTerm (searchProps ''A'') ''leaf1'' \<and>
   isActiveSearch (searchProps ''leaf1'') \<and>
   distinct (map (getNodeId (searchProps ''leaf1'')) (getLeaves (tree (searchProps ''leaf1'')))) \<and>
   searchPredicate (searchProps ''leaf1'') (Node ''leaf1'' [])
     (oneTerm (searchTerm (searchProps ''leaf1''))) \<and>
   nodeAt (tree (searchProps ''leaf1'')) [0, 1] = Some (Node ''leaf2'' []) \<and>
   \<not> createIsLeafVisible oneTerm (searchProps ''leaf1'') ''leaf2''"
proof -
  let ?A = "Node ''A'' [Node ''leaf1'' [], Node ''leaf2'' []]"
  have act: "isActiveSearch (searchProps ''A'')" "isActiveSearch (searchProps ''leaf1'')"
    by (simp_all add: searchProps_def isActiveSearch_def isFiltered_def)
  have h1: "nodeAt (tree (searchProps ''A'')) [0] = Some ?A \<and>
      searchPredicate (searchProps ''A'') ?A (oneTerm (searchTerm (searchProps ''A''))) \<and>
      nodeAt ?A [0] = Some (Node ''leaf1'' []) \<and> isLeaf (Node ''leaf1'' []) \<and>
      (case filteredList (searchProps ''A'') of None \<Rightarrow> True
       | Some fl \<Rightarrow> getNodeId (searchProps ''A'') (Node ''leaf1'' []) \<in> set fl)"
    by (simp add: searchProps_def exampleProps_def exampleTree_def oneTerm_def isLeaf_def)
  have n1: "\<not> searchPredicate (searchProps ''A'') (Node ''leaf1'' [])
      (oneTerm (searchTerm (searchProps ''A'')))"
    by (simp add: searchProps_def oneTerm_def)
  have g1: "getNodeId (searchProps ''A'') (Node ''leaf1'' []) = ''leaf1''"
    by (simp add: searchProps_def exampleProps_def)
  have h2: "distinct (map (getNodeId (searchProps ''leaf1''))
        (getLeaves (tree (searchProps ''leaf1'')))) \<and>
      nodeAt (tree (searchProps ''leaf1'')) [0, 1] = Some (Node ''leaf2'' []) \<and>
      isLeaf (Node ''leaf2'' []) \<and>
      \<not> matchesOnPath
          (\<lambda>m. searchPredicate (searchProps ''leaf1'') m
             (oneTerm (searchTerm (searchProps ''leaf1''))))
          (tree (searchProps ''leaf1'')) [0, 1]"
    by (simp add: searchProps_def exampleProps_def exampleTree_def oneTerm_def isLeaf_def)
  have m2: "searchPredicate (searchProps ''leaf1'') (Node ''leaf1'' [])
      (oneTerm (searchTerm (searchProps ''leaf1'')))"
    by (simp add: searchProps_def oneTerm_def)
  have g2: "getNodeId (searchProps ''leaf1'') (Node ''leaf2'' []) = ''leaf2''"
    by (simp add: searchProps_def exampleProps_def)
  have "createIsLeafVisible oneTerm (searchProps ''A'')
      (getNodeId (searchProps ''A'') (Node ''leaf1'' []))"
    using C7_matches_propagate_downward [OF act(1), of "[0]" ?A oneTerm "[0]" "Node ''leaf1'' []"]
      h1 by blast
  then have v1: "createIsLeafVisible oneTerm (searchProps ''A'') ''leaf1''"
    unfolding g1 .
  have "\<not> createIsLeafVisible oneTerm (searchProps ''leaf1'')
      (getNodeId (searchProps ''leaf1'') (Node ''leaf2'' []))"
    using C7_matches_propagate_downward [OF act(2), of _ _ oneTerm _ _ _ _ "[0, 1]"
        "Node ''leaf2'' []"] h2 by blast
  then have v2: "\<not> createIsLeafVisible oneTerm (searchProps ''leaf1'') ''leaf2''"
    unfolding g2 .
  show ?thesis
    using act h1 n1 v1 h2 m2 v2 by blast
qed

text \<open>
  Claim C5. Take the tree of a run with selection enabled and distinct leaf ids, a leaf L of
  it at path \<open>pL\<close>, and a selected list whose set (after the single-pick trim) differs
  from the previous one in L's id only. In the tree of the next run, the node at every path
  \<open>q\<close> of the old tree is a newly allocated object when \<open>q\<close> leads to L or to an ancestor
  of L (\<open>q\<close> is a prefix of \<open>pL\<close>), and is the old node itself, the same object with the
  same subtree, otherwise.
\<close>

theorem C5_locality:
  assumes "wellFormed root" and "refsBelow (nextRef st) root"
    and "isSelectable P"
    and "distinct (map (getNodeId P) (getLeaves (raw root)))"
    and "applyPropsToStatefulTree root P leafVisible stateExpandedList st = (g1, st1)"
    and "statefulAt (statefulTree g1) pL = Some L" and "isLeaf (raw L)"
    and "\<forall>x. (x \<in> set (selectedSetOf (P\<lparr>selectedList := S'\<rparr>))) =
              ((x \<in> set (selectedSetOf P)) \<noteq> (x = getNodeId P (raw L)))"
    and "applyPropsToStatefulTree (statefulTree g1) (P\<lparr>selectedList := S'\<rparr>) leafVisible
           stateExpandedList st1 = (g2, st2)"
    and "statefulAt (statefulTree g1) q = Some n"
  shows "\<exists>n'. statefulAt (statefulTree g2) q = Some n' \<and>
           (if prefix q pL then ref n' \<noteq> ref n \<and> nextRef st1 \<le> ref n' else n' = n)"
proof -
  let ?t1 = "statefulTree g1"
  let ?P' = "P\<lparr>selectedList := S'\<rparr>"
  let ?provided = "expandedListOf P stateExpandedList \<noteq> None"
  let ?ex = "expandedSetOf P stateExpandedList"
  note first = applyProps_reconciled [OF assms(1,2,5)]
  obtain st0 where st0: "nextRef st0 = nextRef st1"
      "mapStructure (engine ?P' leafVisible stateExpandedList) ?t1 st0 = (statefulTree g2, st2)"
    using applyProps_run [OF assms(9)] by blast
  have eng: "engine ?P' leafVisible stateExpandedList =
      mapFunction P leafVisible ?provided (selectedSetOf ?P') ?ex"
    by (simp add: engine_def expandedListOf_def expandedSetOf_def)
  have only: "\<forall>q m. statefulAt ?t1 q = Some m \<and> isLeaf (raw m) \<and>
      getNodeId P (raw m) = getNodeId P (raw L) \<longrightarrow> q = pL"
  proof (intro allI impI)
    fix q m
    assume a: "statefulAt ?t1 q = Some m \<and> isLeaf (raw m) \<and>
      getNodeId P (raw m) = getNodeId P (raw L)"
    have "nodeAt (raw root) q = Some (raw m)" "nodeAt (raw root) pL = Some (raw L)"
      using statefulAt_raw [OF first(2)] a assms(6) first(3) by auto
    then show "q = pL"
      using leaf_path_unique [OF assms(4), of q "raw m" pL "raw L"] a assms(7) by simp
  qed
  have below: "refsBelow (nextRef st0) ?t1"
    using first(4) st0(1) by simp
  have "nextRef st0 \<le> ref (statefulTree g2) \<and>
         (\<forall>q m. statefulAt ?t1 q = Some m \<longrightarrow>
            (\<exists>m'. statefulAt (statefulTree g2) q = Some m' \<and>
               (if prefix q pL then nextRef st0 \<le> ref m' else m' = m)))"
    by (rule toggle_on_path [OF first(2) first(1) below assms(3) assms(8) assms(6,7) refl only
          st0(2) [unfolded eng]])
  then have "\<exists>m'. statefulAt (statefulTree g2) q = Some m' \<and>
               (if prefix q pL then nextRef st0 \<le> ref m' else m' = n)"
    using assms(10) by blast
  then obtain n' where n': "statefulAt (statefulTree g2) q = Some n'"
      "if prefix q pL then nextRef st1 \<le> ref n' else n' = n"
    unfolding st0(1) by blast
  have "ref n < nextRef st1"
    using first(4) assms(10) by (rule statefulAt_ref)
  then show ?thesis
    using n' by (auto split: if_splits)
qed

theorem C5_witness:
  "wellFormed exampleStatefulTree \<and> refsBelow (nextRef exampleRuntime) exampleStatefulTree \<and>
   isSelectable exampleProps \<and>
   distinct (map (getNodeId exampleProps) (getLeaves (raw exampleStatefulTree))) \<and>
   statefulAt (statefulTree (fst (applyPropsToStatefulTree exampleStatefulTree exampleProps
      (\<lambda>nodeId. True) None exampleRuntime))) [0, 1] =
     Some (StatefulNode 1 (Node ''leaf2'' []) (leafState False True) []) \<and>
   isLeaf (raw (StatefulNode 1 (Node ''leaf2'' []) (leafState False True) [])) \<and>
   (\<forall>x. (x \<in> set (selectedSetOf (exampleProps\<lparr>selectedList := [''leaf1'', ''leaf2'']\<rparr>))) =
         ((x \<in> set (selectedSetOf exampleProps)) \<noteq> (x = ''leaf2''))) \<and>
   statefulAt (statefulTree (fst (applyPropsToStatefulTree exampleStatefulTree exampleProps
      (\<lambda>nodeId. True) None exampleRuntime))) [1] =
     Some (StatefulNode 4 (Node ''B'' [Node ''leaf3'' []]) (branchSt False True False False)
        [StatefulNode 3 (Node ''leaf3'' []) (leafState False True) []]) \<and>
   \<not> prefix [1] [0, 1::nat] \<and>
   statefulAt (statefulTree (fst (applyPropsToStatefulTree
      (statefulTree (fst (applyPropsToStatefulTree exampleStatefulTree exampleProps
         (\<lambda>nodeId. True) None exampleRuntime)))
      (exampleProps\<lparr>selectedList := [''leaf1'', ''leaf2'']\<rparr>) (\<lambda>nodeId. True) None
      (snd (applyPropsToStatefulTree exampleStatefulTree exampleProps
         (\<lambda>nodeId. True) None exampleRuntime))))) [1] =
     Some (StatefulNode 4 (Node ''B'' [Node ''leaf3'' []]) (branchSt False True False False)
        [StatefulNode 3 (Node ''leaf3'' []) (leafState False True) []])"
proof -
  let ?r1 = "applyPropsToStatefulTree exampleStatefulTree exampleProps (\<lambda>nodeId. True) None
               exampleRuntime"
  let ?P' = "exampleProps\<lparr>selectedList := [''leaf1'', ''leaf2'']\<rparr>"
  let ?r2 = "applyPropsToStatefulTree (statefulTree (fst ?r1)) ?P' (\<lambda>nodeId. True) None (snd ?r1)"
  let ?L = "StatefulNode 1 (Node ''leaf2'' []) (leafState False True) []"
  let ?B = "StatefulNode 4 (Node ''B'' [Node ''leaf3'' []]) (branchSt False True False False)
        [StatefulNode 3 (Node ''leaf3'' []) (leafState False True) []]"
  have run1: "?r1 = (fst ?r1, snd ?r1)" and run2: "?r2 = (fst ?r2, snd ?r2)"
    by simp_all
  have sel: "isSelectable exampleProps"
    by (simp add: exampleProps_def)
  have dist: "distinct (map (getNodeId exampleProps) (getLeaves (raw exampleStatefulTree)))"
    by (simp add: exampleProps_def exampleStatefulTree_val exampleTree_def)
  have L: "statefulAt (statefulTree (fst ?r1)) [0, 1] = Some ?L"
    by (simp add: example_run)
  have leaf: "isLeaf (raw ?L)"
    by (simp add: isLeaf_def)
  have B: "statefulAt (statefulTree (fst ?r1)) [1] = Some ?B"
    by (simp add: example_run)
  have flip: "\<forall>x. (x \<in> set (selectedSetOf ?P')) =
      ((x \<in> set (selectedSetOf exampleProps)) \<noteq> (x = getNodeId exampleProps (raw ?L)))"
    by (auto simp: selectedSetOf_def exampleProps_def set_new_Set)
  have g: "getNodeId exampleProps (raw ?L) = ''leaf2''"
    by (simp add: exampleProps_def)
  have np: "\<not> prefix [1] [0, 1::nat]"
    by simp
  from C5_locality [OF example_wellFormed example_refsBelow sel dist run1 L leaf flip run2 B]
  have "statefulAt (statefulTree (fst ?r2)) [1] = Some ?B"
    using np by auto
  then show ?thesis
    using example_wellFormed example_refsBelow sel dist L leaf flip [unfolded g] B np by blast
qed


end
